theory Spec2Isabelle
  imports Complex_Main "HOL-Library.Sublist" "HOL-Library.Log_Nat"
begin

section \<open>Data model of \<open>src/main.js\<close>\<close>

text \<open>
  The program is a single JavaScript module: a handful of module-level variables, a
  \<open>draw\<close> function called once per refresh cycle, a \<open>captureSelectedCrop\<close> function and
  the click handler of the pick button.

  JavaScript numbers are IEEE 754 doubles. A finite double is modelled by the \<open>real\<close> it
  denotes: confidence scores, box coordinates, timestamps and \<open>Math.random()\<close> are such
  values (\<open>isDouble\<close> below says that a real is one). Comparisons, \<open>Math.floor\<close>, \<open>Math.max\<close>
  and \<open>Math.min\<close> are exact on doubles. Every sum, product and quotient of the source whose
  exact result need not be a double is rounded to the nearest double, ties to even
  (\<open>roundDouble\<close>), and where the result can leave the double range it becomes an infinity
  (\<open>toNum\<close>). \<open>NaN\<close> cannot arise from finite operands in the expressions of the source, and
  the sign of a zero is not observable in them; neither is modelled. Values that are
  integers in the source (the video and canvas dimensions, which are \<open>unsigned long\<close>,
  array indices, the clamped crop rectangle) are \<open>nat\<close> or \<open>int\<close>.
\<close>

subsection \<open>Double arithmetic\<close>

text \<open>The binary exponent of a positive real: \<open>2 ^ expo x \<le> x < 2 ^ (expo x + 1)\<close>.\<close>

definition expo :: "real \<Rightarrow> int" where
  "expo x = (if 1 \<le> x then bitlen \<lfloor>x\<rfloor> - 1 else - bitlen (\<lceil>1 / x\<rceil> - 1))"

text \<open>Rounding to the nearest integer, a tie going to the even neighbour.\<close>

definition roundHalfEven :: "real \<Rightarrow> int" where
  "roundHalfEven y =
     (let f = \<lfloor>y\<rfloor>; d = y - real_of_int f
      in if d < 1 / 2 then f else if 1 / 2 < d then f + 1 else if even f then f else f + 1)"

text \<open>The distance between neighbouring doubles around \<open>x\<close>: 53 significant bits, and the
  fixed spacing \<open>2 ^ -1074\<close> of the subnormal range below \<open>2 ^ -1022\<close>.\<close>

definition ulp :: "real \<Rightarrow> real" where
  "ulp x = 2 powi (max (expo \<bar>x\<bar>) (- 1022) - 52)"

text \<open>Round to nearest, ties to even, with the exponent unbounded above.\<close>

definition roundDouble :: "real \<Rightarrow> real" where
  "roundDouble x = (if x = 0 then 0 else real_of_int (roundHalfEven (x / ulp x)) * ulp x)"

definition isDouble :: "real \<Rightarrow> bool" where
  "isDouble x = (roundDouble x = x \<and> \<bar>x\<bar> < 2 ^ 1024)"

text \<open>A number as a drawing call receives it: a finite double or an infinity. \<open>toNum\<close> is the
  result of an arithmetic operation whose exact value is \<open>x\<close>: it overflows to an infinity
  when the rounded magnitude reaches \<open>2 ^ 1024\<close>. \<open>addNum a b\<close> is \<open>a + b\<close> and \<open>maxNum a b\<close> is
  \<open>Math.max(a, b)\<close> for a finite \<open>b\<close>.\<close>

datatype jsnum = Fin real | PosInf | NegInf

definition toNum :: "real \<Rightarrow> jsnum" where
  "toNum x =
     (let r = roundDouble x
      in if 2 ^ 1024 \<le> r then PosInf else if r \<le> - (2 ^ 1024) then NegInf else Fin r)"

definition addNum :: "jsnum \<Rightarrow> real \<Rightarrow> jsnum" where
  "addNum a b = (case a of Fin x \<Rightarrow> toNum (x + b) | PosInf \<Rightarrow> PosInf | NegInf \<Rightarrow> NegInf)"

definition maxNum :: "jsnum \<Rightarrow> real \<Rightarrow> jsnum" where
  "maxNum a b = (case a of Fin x \<Rightarrow> Fin (max x b) | PosInf \<Rightarrow> PosInf | NegInf \<Rightarrow> Fin b)"

subsection \<open>Program state and environment\<close>

text \<open>One element of the array returned by \<open>model.detect\<close>: \<open>{class, score, bbox: [x, y, w, h]}\<close>.\<close>

record detection =
  det_class :: string
  score :: real
  bbox :: "real \<times> real \<times> real \<times> real"

text \<open>\<open>facingMode\<close>: \<open>"user"\<close> (front camera) or \<open>"environment"\<close> (rear camera).\<close>

datatype facing = User | Environment

text \<open>The module-level variables (\<open>let running\<close>, \<open>minScore\<close>, \<open>facingMode\<close>, \<open>currentPeople\<close>,
  \<open>selectedIdx\<close>, \<open>selectUntil\<close>); \<open>null\<close> is \<open>None\<close>.\<close>

record app_state =
  running :: bool
  minScore :: real
  facingMode :: facing
  currentPeople :: "detection list"
  selectedIdx :: "nat option"
  selectUntil :: real

text \<open>The \<open>video\<close> element: its intrinsic dimensions (\<open>0\<close> while unknown) and the pixel of
  the current frame at column \<open>x\<close>, row \<open>y\<close>.\<close>

record 'px video =
  videoWidth :: nat
  videoHeight :: nat
  framePixel :: "nat \<Rightarrow> nat \<Rightarrow> 'px"

text \<open>What the code reads from the browser during one call: the video element, the size of
  the overlay canvas, \<open>performance.now()\<close>, \<open>Math.random()\<close>, \<open>ctx.measureText(s).width\<close> and
  \<open>Number.prototype.toFixed(0)\<close>.\<close>

record 'px env =
  video :: "'px video"
  canvas_width :: nat
  canvas_height :: nat
  perf_now :: real
  random :: real
  measureText :: "string \<Rightarrow> real"
  toFixed0 :: "jsnum \<Rightarrow> string"

text \<open>The calls made on the overlay's 2D context, in program order.\<close>

datatype canvas_op =
    ClearRect real real real real
  | SetLineWidth real
  | SetStrokeStyle string
  | SetFillStyle string
  | SetFont string
  | SetTextBaseline string
  | StrokeRect jsnum jsnum jsnum jsnum
  | FillRect jsnum jsnum jsnum jsnum
  | FillText string jsnum jsnum
  | BeginPath

text \<open>Non-ASCII characters of the source's string literals, as UTF-8 bytes:
  U+1F389 (party popper) and U+2026 (horizontal ellipsis).\<close>

definition party :: string where
  "party = [CHR 0xF0, CHR 0x9F, CHR 0x8E, CHR 0x89]"

definition ellipsis :: string where
  "ellipsis = [CHR 0xE2, CHR 0x80, CHR 0xA6]"

section \<open>\<open>draw\<close>: filtering and the overlay\<close>

text \<open>Line 91: \<open>selectedIdx === i && performance.now() < selectUntil\<close>.\<close>

definition isChosen :: "app_state \<Rightarrow> real \<Rightarrow> nat \<Rightarrow> bool" where
  "isChosen st t i = (selectedIdx st = Some i \<and> t < selectUntil st)"

text \<open>The body of the \<open>forEach\<close> callback (lines 85 to 121) for candidate \<open>p\<close> at index \<open>i\<close>.
  \<open>padX * 2\<close> and \<open>22 + padY * 2\<close> are small integers and exact.\<close>

definition drawPerson ::
  "app_state \<Rightarrow> 'px env \<Rightarrow> real \<Rightarrow> real \<Rightarrow> nat \<Rightarrow> detection \<Rightarrow> canvas_op list" where
  "drawPerson st e scaleX scaleY i p =
     (case bbox p of (x, y, w, h) \<Rightarrow>
        let rx = toNum (x * scaleX); ry = toNum (y * scaleY);
            rw = toNum (w * scaleX); rh = toNum (h * scaleY);
            chosen = isChosen st (perf_now e) i;
            label = (if chosen then party @ '' Selected!''
                     else ''person '' @ toFixed0 e (toNum (score p * 100)) @ ''%'');
            padX = 6; padY = 4;
            textW = measureText e label;
            boxW = toNum (textW + padX * 2);
            boxH = 22 + padY * 2;
            ly = maxNum (addNum ry (- boxH)) 0
        in [SetLineWidth (if chosen then 4 else 2),
            SetStrokeStyle (if chosen then ''#22c55e'' else ''#2563eb''),
            SetFillStyle (if chosen then ''rgba(34,197,94,0.15)'' else ''rgba(37,99,235,0.15)''),
            StrokeRect rx ry rw rh,
            FillRect rx ry rw rh,
            SetFont ''16px system-ui, -apple-system, Segoe UI, Roboto, Inter, Arial'',
            SetTextBaseline ''top'',
            SetFillStyle ''rgba(0,0,0,0.65)'',
            FillRect rx ly boxW (Fin boxH),
            SetFillStyle ''#fff'',
            FillText label (addNum rx padX) (addNum ly padY)]
           @ (if chosen
              then [BeginPath, SetLineWidth 6, SetStrokeStyle ''rgba(34,197,94,0.7)'',
                    StrokeRect (addNum rx (- 4)) (addNum ry (- 4)) (addNum rw 8) (addNum rh 8)]
              else []))"

text \<open>Lines 80 to 82: \<open>preds.filter((p) => p.class === "person" && p.score >= minScore)\<close>.\<close>

definition filterPeople :: "real \<Rightarrow> detection list \<Rightarrow> detection list" where
  "filterPeople t preds = filter (\<lambda>p. det_class p = ''person'' \<and> score p \<ge> t) preds"

text \<open>\<open>draw(preds)\<close>: clears the overlay, replaces \<open>currentPeople\<close> and draws every candidate.
  The result is the new module state and the context calls made. The two scale factors
  are quotients of integers below \<open>2 ^ 32\<close> and stay finite.\<close>

definition draw :: "app_state \<Rightarrow> 'px env \<Rightarrow> detection list \<Rightarrow> app_state \<times> canvas_op list" where
  "draw st e preds =
     (let vw = (if videoWidth (video e) = 0 then 1280 else real (videoWidth (video e)));
          vh = (if videoHeight (video e) = 0 then 720 else real (videoHeight (video e)));
          cw = real (canvas_width e);
          ch = real (canvas_height e);
          scaleX = roundDouble (cw / vw);
          scaleY = roundDouble (ch / vh);
          st' = st\<lparr>currentPeople := filterPeople (minScore st) preds\<rparr>
      in (st', ClearRect 0 0 cw ch #
               concat (map (\<lambda>(i, p). drawPerson st' e scaleX scaleY i p)
                           (enumerate 0 (currentPeople st')))))"

text \<open>\<open>loop()\<close>, one cycle, given what \<open>model.detect(video, 50)\<close> resolved to. The last
  component tells whether \<open>requestAnimationFrame(loop)\<close> was called.\<close>

definition loop :: "app_state \<Rightarrow> 'px env \<Rightarrow> detection list \<Rightarrow> app_state \<times> canvas_op list \<times> bool" where
  "loop st e preds =
     (if \<not> running st then (st, [], False)
      else case draw st e preds of (st', ops) \<Rightarrow> (st', ops, True))"

section \<open>The offscreen canvas used by \<open>captureSelectedCrop\<close>\<close>

text \<open>
  The browser's 2D canvas, as far as the crop uses it. A canvas is a grid of pixels, each
  either transparent (\<open>None\<close>) or painted, and its context carries the current
  transformation matrix \<open>(a, b, c, d, e, f)\<close>, which sends the user-space point \<open>(x, y)\<close> to
  the device point \<open>(a x + c y + e, b x + d y + f)\<close>. \<open>translate\<close> and \<open>scale\<close> multiply the
  matrix on the right, as the Canvas standard defines them. \<open>drawImage\<close> with eight
  coordinates paints each device pixel whose centre, taken back to user space, lies in the
  destination rectangle, with the source pixel that the rectangle-to-rectangle map assigns
  to that point; source points outside the frame paint nothing.
\<close>

record ctm =
  ma :: real
  mb :: real
  mc :: real
  md :: real
  me :: real
  mf :: real

record 'px canvas2d =
  cv_width :: nat
  cv_height :: nat
  cv_pixels :: "'px option list list"
  cv_ctm :: ctm

text \<open>The value of \<open>off.toDataURL("image/png")\<close>: a lossless encoding of the canvas content,
  modelled as the content itself.\<close>

record 'px image =
  img_width :: nat
  img_height :: nat
  img_pixels :: "'px option list list"

text \<open>\<open>document.createElement("canvas")\<close> followed by the assignments to \<open>width\<close> and
  \<open>height\<close>: a transparent canvas with the identity matrix.\<close>

definition createCanvas :: "nat \<Rightarrow> nat \<Rightarrow> 'px canvas2d" where
  "createCanvas w h =
     \<lparr>cv_width = w, cv_height = h, cv_pixels = replicate h (replicate w None),
      cv_ctm = \<lparr>ma = 1, mb = 0, mc = 0, md = 1, me = 0, mf = 0\<rparr>\<rparr>"

definition translate :: "'px canvas2d \<Rightarrow> real \<Rightarrow> real \<Rightarrow> 'px canvas2d" where
  "translate cv tx ty =
     (let m = cv_ctm cv
      in cv\<lparr>cv_ctm := m\<lparr>me := ma m * tx + mc m * ty + me m,
                          mf := mb m * tx + md m * ty + mf m\<rparr>\<rparr>)"

definition scale :: "'px canvas2d \<Rightarrow> real \<Rightarrow> real \<Rightarrow> 'px canvas2d" where
  "scale cv kx ky =
     (let m = cv_ctm cv
      in cv\<lparr>cv_ctm := m\<lparr>ma := ma m * kx, mb := mb m * kx,
                          mc := mc m * ky, md := md m * ky\<rparr>\<rparr>)"

definition videoPixel :: "'px video \<Rightarrow> int \<Rightarrow> int \<Rightarrow> 'px option" where
  "videoPixel v i j =
     (if 0 \<le> i \<and> i < int (videoWidth v) \<and> 0 \<le> j \<and> j < int (videoHeight v)
      then Some (framePixel v (nat i) (nat j)) else None)"

text \<open>The source pixel painted onto device pixel (column \<open>col\<close>, row \<open>row\<close>), if any.\<close>

definition samplePixel ::
  "ctm \<Rightarrow> 'px video \<Rightarrow> real \<Rightarrow> real \<Rightarrow> real \<Rightarrow> real \<Rightarrow> real \<Rightarrow> real \<Rightarrow> real \<Rightarrow> real \<Rightarrow>
   nat \<Rightarrow> nat \<Rightarrow> 'px option" where
  "samplePixel m v sx sy sw sh dx dy dw dh col row =
     (let dt = ma m * md m - mb m * mc m
      in if dt = 0 \<or> sw \<le> 0 \<or> sh \<le> 0 \<or> dw \<le> 0 \<or> dh \<le> 0 then None
         else
           let px = real col + 1 / 2 - me m;
               py = real row + 1 / 2 - mf m;
               ux = (md m * px - mc m * py) / dt;
               uy = (ma m * py - mb m * px) / dt
           in if dx \<le> ux \<and> ux < dx + dw \<and> dy \<le> uy \<and> uy < dy + dh
              then videoPixel v \<lfloor>sx + (ux - dx) * sw / dw\<rfloor> \<lfloor>sy + (uy - dy) * sh / dh\<rfloor>
              else None)"

definition drawImage ::
  "'px canvas2d \<Rightarrow> 'px video \<Rightarrow> real \<Rightarrow> real \<Rightarrow> real \<Rightarrow> real \<Rightarrow> real \<Rightarrow> real \<Rightarrow> real \<Rightarrow> real \<Rightarrow>
   'px canvas2d" where
  "drawImage cv v sx sy sw sh dx dy dw dh =
     cv\<lparr>cv_pixels :=
          map (\<lambda>row. map (\<lambda>col.
                 case samplePixel (cv_ctm cv) v sx sy sw sh dx dy dw dh col row of
                   Some c \<Rightarrow> Some c
                 | None \<Rightarrow> cv_pixels cv ! row ! col)
               [0..<cv_width cv])
              [0..<cv_height cv]\<rparr>"

definition toDataURL :: "'px canvas2d \<Rightarrow> 'px image" where
  "toDataURL cv = \<lparr>img_width = cv_width cv, img_height = cv_height cv, img_pixels = cv_pixels cv\<rparr>"

section \<open>\<open>captureSelectedCrop\<close>\<close>

text \<open>Reading a property of \<open>undefined\<close> throws a \<open>TypeError\<close>; nothing else in the code
  throws.\<close>

datatype js_error = TypeError

text \<open>Lines 135 to 138: the crop rectangle \<open>(sx, sy, sw, sh)\<close> computed from the box and the
  video dimensions.\<close>

definition clampBox :: "nat \<Rightarrow> nat \<Rightarrow> real \<times> real \<times> real \<times> real \<Rightarrow> int \<times> int \<times> int \<times> int" where
  "clampBox vw vh b =
     (case b of (x, y, w, h) \<Rightarrow>
        let sx = max 0 \<lfloor>x\<rfloor>;
            sy = max 0 \<lfloor>y\<rfloor>;
            sw = min (int vw - sx) \<lfloor>w\<rfloor>;
            sh = min (int vh - sy) \<lfloor>h\<rfloor>
        in (sx, sy, sw, sh))"

text \<open>\<open>captureSelectedCrop(det)\<close>. The argument is \<open>None\<close> when the caller passes
  \<open>undefined\<close> (an array read out of range), and then \<open>det.bbox\<close> throws. \<open>Inr None\<close> is the
  return value \<open>null\<close>.\<close>

definition captureSelectedCrop ::
  "app_state \<Rightarrow> 'px video \<Rightarrow> detection option \<Rightarrow> js_error + 'px image option" where
  "captureSelectedCrop st v det =
     (case det of
        None \<Rightarrow> Inl TypeError
      | Some d \<Rightarrow>
          let vw = videoWidth v; vh = videoHeight v
          in if vw = 0 \<or> vh = 0 then Inr None
             else case clampBox vw vh (bbox d) of (sx, sy, sw, sh) \<Rightarrow>
               if sw \<le> 1 \<or> sh \<le> 1 then Inr None
               else
                 let off = createCanvas (nat sw) (nat sh);
                     mirrored = (facingMode st = User);
                     off' = (if mirrored
                             then drawImage (scale (translate off (real_of_int sw) 0) (- 1) 1) v
                                    (real_of_int sx) (real_of_int sy) (real_of_int sw) (real_of_int sh)
                                    0 0 (real_of_int sw) (real_of_int sh)
                             else drawImage off v
                                    (real_of_int sx) (real_of_int sy) (real_of_int sw) (real_of_int sh)
                                    0 0 (real_of_int sw) (real_of_int sh))
                 in Inr (Some (toDataURL off')))"

section \<open>The pick button\<close>

text \<open>The visible effects of the handlers: \<open>showToast(msg, ms)\<close> and the spotlight modal
  being shown with an image and a caption.\<close>

datatype 'px ui_effect =
    ShowToast string nat
  | ShowSpotlight "'px image" string

text \<open>\<open>showSpotlight(dataUrl, caption)\<close>: does nothing for \<open>null\<close>.\<close>

definition showSpotlight :: "'px image option \<Rightarrow> string \<Rightarrow> 'px ui_effect list" where
  "showSpotlight dataUrl caption =
     (case dataUrl of None \<Rightarrow> [] | Some img \<Rightarrow> [ShowSpotlight img caption])"

text \<open>The handler is an \<open>async\<close> function that suspends three times for 400 ms; between
  its segments the refresh loop runs and may replace \<open>currentPeople\<close>. Each segment is one
  function; \<open>pick_stage\<close> names the segment that runs when the pending timer fires.\<close>

datatype pick_stage = Countdown2 | Countdown1 | Select

text \<open>Lines 237 to 245, from the click to the first \<open>await\<close>.\<close>

definition pickClick :: "app_state \<Rightarrow> app_state \<times> 'px ui_effect list \<times> pick_stage option" where
  "pickClick st =
     (if length (currentPeople st) = 0
      then (st\<lparr>selectedIdx := None\<rparr>,
            [ShowToast ''No students detected. Adjust camera/angle.'' 2000], None)
      else (st, [ShowToast (''Picking in 3'' @ ellipsis) 1500], Some Countdown2))"

text \<open>Lines 251 to 258, after the last \<open>await\<close>. The last component is the exception that
  ended the handler, if any; the assignments made before it remain. The product and the
  sum are double operations: \<open>Math.random()\<close> is below 1 and an array length below
  \<open>2 ^ 32\<close>, and adding 3500 to a finite double gives a finite double, so neither
  overflows.\<close>

definition pickSelect :: "app_state \<Rightarrow> 'px env \<Rightarrow> app_state \<times> 'px ui_effect list \<times> js_error option" where
  "pickSelect st e =
     (let idx = nat \<lfloor>roundDouble (random e * real (length (currentPeople st)))\<rfloor>;
          st' = st\<lparr>selectedIdx := Some idx,
                  selectUntil := roundDouble (perf_now e + 3500)\<rparr>;
          toast = ShowToast (party @ '' Selected!'') 1000;
          chosen = (if idx < length (currentPeople st') then Some (currentPeople st' ! idx)
                    else None)
      in case captureSelectedCrop st' (video e) chosen of
           Inl err \<Rightarrow> (st', [toast], Some err)
         | Inr dataUrl \<Rightarrow>
             (st', toast # showSpotlight dataUrl ''Ready to answer the next question!'', None))"

text \<open>The segment run when a countdown timer fires.\<close>

definition pickResume ::
  "pick_stage \<Rightarrow> app_state \<Rightarrow> 'px env \<Rightarrow>
   app_state \<times> 'px ui_effect list \<times> pick_stage option \<times> js_error option" where
  "pickResume stage st e =
     (case stage of
        Countdown2 \<Rightarrow> (st, [ShowToast (''2'' @ ellipsis) 1500], Some Countdown1, None)
      | Countdown1 \<Rightarrow> (st, [ShowToast (''1'' @ ellipsis) 1500], Some Select, None)
      | Select \<Rightarrow> (case pickSelect st e of (st', effs, err) \<Rightarrow> (st', effs, None, err)))"

section \<open>Observations and example inputs\<close>

text \<open>Whether a sequence of context calls draws the highlight: only the chosen candidate is
  stroked in the colour \<open>#22c55e\<close> (line 94).\<close>

definition highlightDrawn :: "canvas_op list \<Rightarrow> bool" where
  "highlightDrawn ops = (SetStrokeStyle ''#22c55e'' \<in> set ops)"

text \<open>Three raw detections, a 640 by 480 frame whose pixel at \<open>(x, y)\<close> is \<open>x + 1000 y\<close>, and a
  module state as it is after start-up.\<close>

definition ex_preds :: "detection list" where
  "ex_preds = [\<lparr>det_class = ''person'', score = 3 / 4, bbox = (10, 20, 100, 200)\<rparr>,
               \<lparr>det_class = ''dog'', score = 15 / 16, bbox = (300, 40, 80, 60)\<rparr>,
               \<lparr>det_class = ''person'', score = 5 / 16, bbox = (500, 100, 90, 210)\<rparr>]"

definition ex_state :: app_state where
  "ex_state = \<lparr>running = True, minScore = 1 / 2, facingMode = User, currentPeople = [],
               selectedIdx = None, selectUntil = 0\<rparr>"

definition ex_video :: "nat video" where
  "ex_video = \<lparr>videoWidth = 640, videoHeight = 480, framePixel = (\<lambda>x y. x + 1000 * y)\<rparr>"

definition ex_env :: "nat env" where
  "ex_env = \<lparr>video = ex_video, canvas_width = 1280, canvas_height = 960, perf_now = 1000,
             random = 1 / 2, measureText = (\<lambda>s. 8 * real (length s)),
             toFixed0 = (\<lambda>x. ''75'')\<rparr>"

text \<open>States in which two and six candidates are current, and states that still hold the
  selection of an earlier pick (index 5 or 0, highlight until 5000 ms).\<close>

definition ex_two :: app_state where
  "ex_two = ex_state\<lparr>minScore := 1 / 4, currentPeople := [ex_preds ! 0, ex_preds ! 2]\<rparr>"

definition ex_six :: app_state where
  "ex_six = ex_state\<lparr>currentPeople := replicate 6 (ex_preds ! 0)\<rparr>"

definition ex_stale :: app_state where
  "ex_stale = ex_state\<lparr>selectedIdx := Some 5, selectUntil := 5000\<rparr>"

definition ex_earlier :: app_state where
  "ex_earlier = ex_state\<lparr>selectedIdx := Some 0, selectUntil := 5000\<rparr>"

text \<open>Boxes for the crop: one inside the frame, one that starts ten pixels right of the
  frame, one that ends fifty pixels left of it.\<close>

definition ex_det :: detection where
  "ex_det = \<lparr>det_class = ''person'', score = 3 / 4, bbox = (21 / 2, 20, 3, 5 / 2)\<rparr>"

definition ex_beyond :: detection where
  "ex_beyond = \<lparr>det_class = ''person'', score = 3 / 4, bbox = (650, 10, 50, 50)\<rparr>"

definition ex_left :: detection where
  "ex_left = \<lparr>det_class = ''person'', score = 3 / 4, bbox = (- 100, 10, 50, 50)\<rparr>"

definition ex_front :: "nat image" where
  "ex_front = \<lparr>img_width = 3, img_height = 2,
               img_pixels = [[Some 20012, Some 20011, Some 20010],
                             [Some 21012, Some 21011, Some 21010]]\<rparr>"

definition ex_rear :: "nat image" where
  "ex_rear = \<lparr>img_width = 3, img_height = 2,
              img_pixels = [[Some 20010, Some 20011, Some 20012],
                            [Some 21010, Some 21011, Some 21012]]\<rparr>"

section \<open>Double rounding\<close>

lemma expo_le:
  assumes "0 < x"
  shows "2 powi expo x \<le> x"
proof (cases "1 \<le> x")
  case True
  then have m: "0 < \<lfloor>x\<rfloor>" by simp
  have "0 \<le> bitlen \<lfloor>x\<rfloor> - 1" using m by (simp add: bitlen_alt_def)
  then have "(2::real) powi (bitlen \<lfloor>x\<rfloor> - 1) = 2 ^ nat (bitlen \<lfloor>x\<rfloor> - 1)"
    by (simp add: power_int_nonneg_exp)
  also have "\<dots> = real_of_int (2 ^ nat (bitlen \<lfloor>x\<rfloor> - 1))" by simp
  also have "\<dots> \<le> real_of_int \<lfloor>x\<rfloor>"
    using bitlen_bounds [OF m] by (intro of_int_le_iff [THEN iffD2]) simp
  also have "\<dots> \<le> x" by simp
  finally show ?thesis using True by (simp add: expo_def)
next
  case False
  define c where "c = \<lceil>1 / x\<rceil>"
  have "1 < 1 / x" using False assms by simp
  then have c2: "2 \<le> c" unfolding c_def by linarith
  then have m: "0 < c - 1" by simp
  define b where "b = bitlen (c - 1)"
  have b0: "0 \<le> b" by (simp add: b_def bitlen_nonneg)
  have "c - 1 < 2 ^ nat b" using bitlen_bounds [OF m] by (simp add: b_def)
  then have "c \<le> 2 ^ nat b" by simp
  then have "real_of_int c \<le> real_of_int (2 ^ nat b)" by (simp only: of_int_le_iff)
  then have cb: "real_of_int c \<le> 2 ^ nat b" by simp
  have "1 / x \<le> real_of_int c" unfolding c_def by simp
  with cb have "1 / x \<le> 2 ^ nat b" by linarith
  then have "1 / 2 ^ nat b \<le> x" using assms
    by (simp add: field_simps)
  moreover have "(2::real) powi (- b) = 1 / 2 ^ nat b"
    using b0 by (simp add: power_int_def field_simps)
  ultimately show ?thesis using False by (simp add: expo_def c_def b_def)
qed

lemma expo_gt:
  assumes "0 < x"
  shows "x < 2 powi (expo x + 1)"
proof (cases "1 \<le> x")
  case True
  then have m: "0 < \<lfloor>x\<rfloor>" by simp
  have b: "0 \<le> bitlen \<lfloor>x\<rfloor>" by (simp add: bitlen_nonneg)
  have "\<lfloor>x\<rfloor> < 2 ^ nat (bitlen \<lfloor>x\<rfloor>)" using bitlen_bounds [OF m] by simp
  then have "x < real_of_int (2 ^ nat (bitlen \<lfloor>x\<rfloor>))" by (simp only: floor_less_iff)
  then have "x < 2 ^ nat (bitlen \<lfloor>x\<rfloor>)" by simp
  also have "\<dots> = 2 powi (bitlen \<lfloor>x\<rfloor>)" using b by (simp add: power_int_nonneg_exp)
  finally show ?thesis using True by (simp add: expo_def)
next
  case False
  define c where "c = \<lceil>1 / x\<rceil>"
  have "1 < 1 / x" using False assms by simp
  then have c2: "2 \<le> c" unfolding c_def by linarith
  then have m: "0 < c - 1" by simp
  define b where "b = bitlen (c - 1)"
  have b1: "1 \<le> b" using m by (simp add: b_def bitlen_alt_def)
  have "2 ^ nat (b - 1) \<le> c - 1" using bitlen_bounds [OF m] by (simp add: b_def)
  then have "real_of_int (2 ^ nat (b - 1)) \<le> real_of_int (c - 1)" by (simp only: of_int_le_iff)
  then have "2 ^ nat (b - 1) \<le> real_of_int c - 1" by simp
  also have "\<dots> < 1 / x" unfolding c_def by linarith
  finally have "2 ^ nat (b - 1) < 1 / x" .
  then have "x < 1 / 2 ^ nat (b - 1)" using assms by (simp add: field_simps)
  moreover have "(2::real) powi (- b + 1) = 1 / 2 ^ nat (b - 1)"
  proof -
    have "(2::real) powi (- b + 1) = 2 powi (- (b - 1))" by simp
    also have "\<dots> = inverse (2 powi (b - 1))" by (rule power_int_minus)
    also have "\<dots> = inverse (2 ^ nat (b - 1))" using b1 by (simp add: power_int_nonneg_exp)
    finally show ?thesis by (simp add: divide_inverse)
  qed
  ultimately show ?thesis using False by (simp add: expo_def c_def b_def)
qed

lemma roundHalfEven_upper: "real_of_int (roundHalfEven z) \<le> z + 1 / 2"
  unfolding roundHalfEven_def Let_def by (simp; linarith)

lemma roundHalfEven_lower: "z - 1 / 2 \<le> real_of_int (roundHalfEven z)"
  unfolding roundHalfEven_def Let_def by (simp; linarith)

lemma roundHalfEven_nonneg: "0 \<le> z \<Longrightarrow> 0 \<le> roundHalfEven z"
  unfolding roundHalfEven_def Let_def by simp

lemma roundHalfEven_of_int: "roundHalfEven (real_of_int k) = k"
  unfolding roundHalfEven_def Let_def by simp

lemma ulp_pos: "0 < ulp x"
  by (simp add: ulp_def)

lemma roundDouble_upper: "roundDouble x \<le> x + ulp x / 2"
proof (cases "x = 0")
  case True
  then show ?thesis using ulp_pos [of x] by (simp add: roundDouble_def)
next
  case False
  have "real_of_int (roundHalfEven (x / ulp x)) * ulp x \<le> (x / ulp x + 1 / 2) * ulp x"
    using roundHalfEven_upper [of "x / ulp x"] ulp_pos [of x]
    by (intro mult_right_mono) simp_all
  also have "\<dots> = x + ulp x / 2" using ulp_pos [of x] by (simp add: field_simps)
  finally show ?thesis using False by (simp add: roundDouble_def)
qed

lemma roundDouble_lower: "x - ulp x / 2 \<le> roundDouble x"
proof (cases "x = 0")
  case True
  then show ?thesis using ulp_pos [of x] by (simp add: roundDouble_def)
next
  case False
  have "(x / ulp x - 1 / 2) * ulp x \<le> real_of_int (roundHalfEven (x / ulp x)) * ulp x"
    using roundHalfEven_lower [of "x / ulp x"] ulp_pos [of x]
    by (intro mult_right_mono) simp_all
  moreover have "(x / ulp x - 1 / 2) * ulp x = x - ulp x / 2"
    using ulp_pos [of x] by (simp add: field_simps)
  ultimately show ?thesis using False by (simp add: roundDouble_def)
qed

lemma roundDouble_nonneg: "0 \<le> x \<Longrightarrow> 0 \<le> roundDouble x"
  using ulp_pos [of x] by (simp add: roundDouble_def roundHalfEven_nonneg)

lemma ulp_normal:
  assumes "0 < y" "- 1022 \<le> expo y"
  shows "ulp y \<le> y * 2 powi (- 52)"
proof -
  have "ulp y = 2 powi (expo y + (- 52))"
    using assms by (simp add: ulp_def max_def)
  also have "\<dots> = 2 powi expo y * 2 powi (- 52)"
    by (rule power_int_add) simp
  also have "\<dots> \<le> y * 2 powi (- 52)"
    using expo_le [OF assms(1)] by (intro mult_right_mono) simp_all
  finally show ?thesis .
qed

lemma ulp_subnormal:
  assumes "0 < y" "expo y < - 1022"
  shows "ulp y = 2 powi (- 1074)" and "y < 2 powi (- 1022)"
proof -
  show "ulp y = 2 powi (- 1074)"
    using assms by (simp add: ulp_def max_def)
  have "y < 2 powi (expo y + 1)" by (rule expo_gt [OF assms(1)])
  also have "\<dots> \<le> 2 powi (- 1022)"
    using assms(2) by (intro power_int_increasing) simp_all
  finally show "y < 2 powi (- 1022)" .
qed

lemma expo_upper_half:
  assumes "1 / 2 \<le> r" "r < 1"
  shows "expo r = - 1"
proof -
  have "1 < 1 / r" "1 / r \<le> 2" using assms by (simp_all add: field_simps)
  then have "\<lceil>1 / r\<rceil> = 2" by linarith
  then show ?thesis using assms by (simp add: expo_def bitlen_alt_def)
qed

lemma double_below_one:
  assumes "isDouble r" "r < 1"
  shows "r \<le> 1 - 1 / 2 ^ 53"
proof (cases "1 / 2 \<le> r")
  case False
  then show ?thesis by simp
next
  case True
  then have r0: "r \<noteq> 0" "\<bar>r\<bar> = r" by simp_all
  have u: "ulp r = 1 / 2 ^ 53"
    using expo_upper_half [OF True assms(2)] r0 by (simp add: ulp_def power_int_minus_divide)
  define k where "k = roundHalfEven (r / ulp r)"
  have r: "r = real_of_int k / 2 ^ 53"
    using assms(1) r0 by (simp add: isDouble_def roundDouble_def k_def u)
  then have "real_of_int k < 2 ^ 53" using assms(2) by (simp add: field_simps)
  then have "real_of_int k < real_of_int (2 ^ 53)" by simp
  then have "k < 2 ^ 53" by (simp only: of_int_less_iff)
  then have "k \<le> 2 ^ 53 - 1" by simp
  then have "real_of_int k \<le> real_of_int (2 ^ 53 - 1)" by (simp only: of_int_le_iff)
  then have "real_of_int k \<le> 2 ^ 53 - 1" by simp
  then have "real_of_int k / 2 ^ 53 \<le> (2 ^ 53 - 1) / 2 ^ 53"
    by (intro divide_right_mono) simp_all
  then show ?thesis unfolding r by (simp add: field_simps)
qed

text \<open>The double product of a double below 1 and a positive integer stays below the
  integer: the relative rounding error is at most \<open>2 ^ -53\<close>, and the largest double
  below 1 is \<open>1 - 2 ^ -53\<close>.\<close>

lemma product_rounds_below:
  assumes "isDouble r" "0 \<le> r" "r < 1" "0 < n"
  shows "roundDouble (r * real n) < real n"
proof (cases "r = 0")
  case True
  then show ?thesis using assms(4) by (simp add: roundDouble_def)
next
  case False
  define y where "y = r * real n"
  define u where "u = (1::real) / 2 ^ 53"
  have u: "0 < u" "u < 1" by (simp_all add: u_def)
  have n1: "1 \<le> real n" using assms(4) by simp
  have y0: "0 < y" using False assms by (simp add: y_def)
  have "r \<le> 1 - u" unfolding u_def by (rule double_below_one [OF assms(1,3)])
  then have yn: "y \<le> (1 - u) * real n" unfolding y_def by (intro mult_right_mono) simp_all
  have "roundDouble y < real n"
  proof (cases "- 1022 \<le> expo y")
    case True
    define c where "c = (2::real) powi (- 52)"
    have cu: "c / 2 = u" by (simp add: c_def u_def power_int_minus_divide)
    have "ulp y \<le> y * c" unfolding c_def by (rule ulp_normal [OF y0 True])
    then have "ulp y / 2 \<le> (y * c) / 2" by (intro divide_right_mono) simp_all
    also have "(y * c) / 2 = y * (c / 2)" by simp
    finally have "ulp y / 2 \<le> y * u" by (simp only: cu)
    then have "roundDouble y \<le> y * (1 + u)"
      using roundDouble_upper [of y] by (simp add: algebra_simps)
    also have "\<dots> \<le> ((1 - u) * real n) * (1 + u)"
      using yn u by (intro mult_right_mono) simp_all
    also have "\<dots> = real n - real n * (u * u)" by (simp add: algebra_simps)
    also have "\<dots> < real n" using u n1 by simp
    finally show ?thesis .
  next
    case False
    then have s: "expo y < - 1022" by simp
    have "roundDouble y \<le> y + 2 powi (- 1074) / 2"
      using roundDouble_upper [of y] ulp_subnormal(1) [OF y0 s] by simp
    also have "\<dots> < 2 powi (- 1022) + 2 powi (- 1074) / 2"
      using ulp_subnormal(2) [OF y0 s] by simp
    also have "\<dots> \<le> 2 powi (- 1) + 2 powi (- 1) / (2::real)"
      by (intro add_mono divide_right_mono power_int_increasing) simp_all
    also have "\<dots> \<le> 1" by simp
    finally show ?thesis using n1 by simp
  qed
  then show ?thesis by (simp add: y_def)
qed

text \<open>Integers of magnitude up to \<open>2 ^ 53\<close> are doubles.\<close>

lemma roundDouble_of_int:
  assumes "\<bar>k\<bar> \<le> 2 ^ 53"
  shows "roundDouble (real_of_int k) = real_of_int k"
proof (cases "k = 0")
  case True
  then show ?thesis by (simp add: roundDouble_def)
next
  case False
  define a where "a = \<bar>real_of_int k\<bar>"
  have a1: "1 \<le> a" using False by (simp add: a_def)
  then have a0: "0 < a" by simp
  define e where "e = expo a"
  have e0: "0 \<le> e"
  proof -
    have "0 < \<lfloor>a\<rfloor>" using a1 by simp
    then have "1 \<le> bitlen \<lfloor>a\<rfloor>" by (simp add: bitlen_alt_def)
    then show ?thesis using a1 by (simp add: e_def expo_def)
  qed
  have "a \<le> 2 ^ 53"
  proof -
    have "real_of_int \<bar>k\<bar> \<le> real_of_int (2 ^ 53)" using assms by (simp only: of_int_le_iff)
    then show ?thesis by (simp add: a_def)
  qed
  moreover have "(2::real) powi e \<le> a" unfolding e_def by (rule expo_le [OF a0])
  moreover have "(2::real) powi 53 = 2 ^ 53" by simp
  ultimately have "(2::real) powi e \<le> 2 powi 53" by (simp only:)
  then have e53: "e \<le> 53" by (rule power_int_le_imp_le_exp [rotated]) simp_all
  show ?thesis
  proof (cases "e = 53")
    case True
    then have "(2::real) powi 53 \<le> a" using expo_le [OF a0] by (simp add: e_def)
    then have a: "a = 2 ^ 53" using \<open>a \<le> 2 ^ 53\<close> by simp
    have ul: "ulp (real_of_int k) = 2" using True by (simp add: ulp_def e_def a_def)
    have "real_of_int k = 2 ^ 53 \<or> real_of_int k = - (2 ^ 53)"
      using a unfolding a_def by linarith
    then show ?thesis
    proof
      assume k: "real_of_int k = 2 ^ 53"
      have q: "real_of_int k / 2 = real_of_int (2 ^ 52)"
        by (simp add: k)
      have "roundDouble (real_of_int k)
            = real_of_int (roundHalfEven (real_of_int k / ulp (real_of_int k))) * ulp (real_of_int k)"
        using \<open>k \<noteq> 0\<close> by (simp add: roundDouble_def)
      also have "\<dots> = real_of_int (2 ^ 52) * 2"
        unfolding ul q roundHalfEven_of_int ..
      also have "\<dots> = real_of_int k" by (simp add: k)
      finally show ?thesis .
    next
      assume k: "real_of_int k = - (2 ^ 53)"
      have q: "real_of_int k / 2 = real_of_int (- (2 ^ 52))"
        by (simp add: k)
      have "roundDouble (real_of_int k)
            = real_of_int (roundHalfEven (real_of_int k / ulp (real_of_int k))) * ulp (real_of_int k)"
        using \<open>k \<noteq> 0\<close> by (simp add: roundDouble_def)
      also have "\<dots> = real_of_int (- (2 ^ 52)) * 2"
        unfolding ul q roundHalfEven_of_int ..
      also have "\<dots> = real_of_int k" by (simp add: k)
      finally show ?thesis .
    qed
  next
    case False
    then have e52: "e \<le> 52" using e53 by simp
    have ul: "ulp (real_of_int k) = 1 / 2 ^ nat (52 - e)"
    proof -
      have "ulp (real_of_int k) = 2 powi (- (52 - e))"
        using e0 by (simp add: ulp_def e_def a_def max_def)
      also have "\<dots> = 1 / 2 powi (52 - e)" by (rule power_int_minus_divide)
      also have "\<dots> = 1 / 2 ^ nat (52 - e)" using e52 by (simp add: power_int_nonneg_exp)
      finally show ?thesis .
    qed
    have "real_of_int k / ulp (real_of_int k) = real_of_int (k * 2 ^ nat (52 - e))"
      by (simp add: ul)
    then have "roundHalfEven (real_of_int k / ulp (real_of_int k)) = k * 2 ^ nat (52 - e)"
      by (simp only: roundHalfEven_of_int)
    then have "roundDouble (real_of_int k)
               = real_of_int (k * 2 ^ nat (52 - e)) * ulp (real_of_int k)"
      using \<open>k \<noteq> 0\<close> by (simp add: roundDouble_def)
    also have "\<dots> = real_of_int k" unfolding ul by simp
    finally show ?thesis .
  qed
qed

lemma roundDouble_numeral:
  "numeral w \<le> (2 ^ 53 :: int) \<Longrightarrow> roundDouble (numeral w) = numeral w"
  using roundDouble_of_int [of "numeral w"] by simp

lemma toNum_numeral:
  "numeral w \<le> (2 ^ 53 :: int) \<Longrightarrow> toNum (numeral w) = Fin (numeral w)"
proof -
  assume w: "numeral w \<le> (2 ^ 53 :: int)"
  then have "real_of_int (numeral w) \<le> real_of_int (2 ^ 53)" by (simp only: of_int_le_iff)
  then have "(numeral w :: real) \<le> 2 ^ 53" by simp
  moreover have "(2::real) ^ 53 < 2 ^ 1024" by (rule power_strict_increasing) simp_all
  ultimately have "(numeral w :: real) < 2 ^ 1024" by (rule order_le_less_trans)
  moreover have "- (2 ^ 1024) < (numeral w :: real)"
    by (rule less_trans [of _ 0]) simp_all
  ultimately show ?thesis
    by (simp only: toNum_def Let_def roundDouble_numeral [OF w] not_le [symmetric] if_False)
qed

section \<open>Filtering\<close>

lemma count_list_filter:
  "count_list (filter P xs) p = (if P p then count_list xs p else 0)"
  by (induction xs) auto

lemma currentPeople_draw:
  "currentPeople (fst (draw st e preds)) = filterPeople (minScore st) preds"
  by (simp add: draw_def Let_def)

lemma length_filter_mono:
  "(\<And>x. x \<in> set xs \<Longrightarrow> P x \<Longrightarrow> Q x) \<Longrightarrow> length (filter P xs) \<le> length (filter Q xs)"
  by (induction xs) auto

text \<open>C1. For every list of raw detections and every threshold \<open>t\<close> in \<open>[0, 1]\<close>, the list that
  \<open>draw\<close> stores in \<open>currentPeople\<close> is a subsequence of the input, in the input's order, and
  holds exactly the detections of class \<open>person\<close> with score at least \<open>t\<close>, each as often as
  the input does.\<close>

theorem filter_exact:
  "0 \<le> t \<Longrightarrow> t \<le> 1 \<Longrightarrow>
   (let cp = currentPeople (fst (draw (st\<lparr>minScore := t\<rparr>) e preds))
    in subseq cp preds
       \<and> (\<forall>p. p \<in> set cp \<longleftrightarrow> p \<in> set preds \<and> det_class p = ''person'' \<and> score p \<ge> t)
       \<and> (\<forall>p. count_list cp p =
                (if det_class p = ''person'' \<and> score p \<ge> t then count_list preds p else 0)))"
  by (simp add: currentPeople_draw filterPeople_def count_list_filter)

theorem filter_exact_witness:
  "(0::real) \<le> 1 / 2 \<and> (1 / 2 :: real) \<le> 1
   \<and> currentPeople (fst (draw (ex_state\<lparr>minScore := 1 / 2\<rparr>) ex_env ex_preds)) = [ex_preds ! 0]
   \<and> subseq [ex_preds ! 0] ex_preds"
  using filter_exact [of "1 / 2" ex_state ex_env ex_preds]
  by (simp add: Let_def currentPeople_draw filterPeople_def ex_preds_def)

text \<open>C7. Filtering is monotonic in the threshold: for thresholds \<open>t1 \<le> t2\<close> in \<open>[0, 1]\<close> and
  the same raw detections, the candidate list for \<open>t2\<close> is no longer than the one for \<open>t1\<close>.\<close>

theorem filter_monotonic:
  "0 \<le> t1 \<Longrightarrow> t1 \<le> t2 \<Longrightarrow> t2 \<le> 1 \<Longrightarrow>
   length (currentPeople (fst (draw (st\<lparr>minScore := t2\<rparr>) e preds)))
     \<le> length (currentPeople (fst (draw (st\<lparr>minScore := t1\<rparr>) e preds)))"
  unfolding currentPeople_draw filterPeople_def
  by (simp, rule length_filter_mono) auto

theorem filter_monotonic_witness:
  "(0::real) \<le> 1 / 4 \<and> (1 / 4 :: real) \<le> 1 / 2 \<and> (1 / 2 :: real) \<le> 1
   \<and> length (currentPeople (fst (draw (ex_state\<lparr>minScore := 1 / 2\<rparr>) ex_env ex_preds))) = 1
   \<and> length (currentPeople (fst (draw (ex_state\<lparr>minScore := 1 / 4\<rparr>) ex_env ex_preds))) = 2"
  using filter_monotonic [of "1 / 4" "1 / 2" ex_state ex_env ex_preds]
  by (simp add: currentPeople_draw filterPeople_def ex_preds_def)

section \<open>Picking and the highlight\<close>

lemma fst_pickSelect:
  "fst (pickSelect st e) =
     st\<lparr>selectedIdx := Some (nat \<lfloor>roundDouble (random e * real (length (currentPeople st)))\<rfloor>),
        selectUntil := roundDouble (perf_now e + 3500)\<rparr>"
  by (simp add: pickSelect_def Let_def split: sum.splits)

lemma random_index_less:
  assumes "isDouble r" "0 \<le> r" "r < 1" "0 < n"
  shows "nat \<lfloor>roundDouble (r * real n)\<rfloor> < n"
proof -
  have "roundDouble (r * real n) < real n" by (rule product_rounds_below [OF assms])
  then have "\<lfloor>roundDouble (r * real n)\<rfloor> < int n" by (simp add: floor_less_iff)
  moreover have "0 \<le> roundDouble (r * real n)"
    using assms(2) by (intro roundDouble_nonneg) simp
  then have "0 \<le> \<lfloor>roundDouble (r * real n)\<rfloor>" by simp
  ultimately show ?thesis by linarith
qed

lemma highlight_drawPerson:
  "SetStrokeStyle ''#22c55e'' \<in> set (drawPerson st e a b i p) \<longleftrightarrow> isChosen st (perf_now e) i"
  by (cases "bbox p") (simp add: drawPerson_def Let_def)

lemma drawPerson_cong:
  "isChosen st (perf_now e) i = isChosen st2 (perf_now e) i \<Longrightarrow>
   drawPerson st e a b i p = drawPerson st2 e a b i p"
  by (simp add: drawPerson_def Let_def split: prod.splits)

lemma ex_index_enumerate:
  "(\<exists>x\<in>set (enumerate 0 xs). Q (fst x)) \<longleftrightarrow> (\<exists>i<length xs. Q i)"
proof
  assume "\<exists>x\<in>set (enumerate 0 xs). Q (fst x)"
  then show "\<exists>i<length xs. Q i" by (auto simp: in_set_enumerate_eq)
next
  assume "\<exists>i<length xs. Q i"
  then obtain i where i: "i < length xs" "Q i" by blast
  then have "(i, xs ! i) \<in> set (enumerate 0 xs)" by (simp add: in_set_enumerate_eq)
  with i show "\<exists>x\<in>set (enumerate 0 xs). Q (fst x)" by force
qed

lemma isChosen_currentPeople:
  "isChosen (st\<lparr>currentPeople := cp\<rparr>) t i = isChosen st t i"
  by (simp add: isChosen_def)

lemma highlight_draw:
  "highlightDrawn (snd (draw st e preds)) \<longleftrightarrow>
     (\<exists>i. i < length (filterPeople (minScore st) preds) \<and> selectedIdx st = Some i
           \<and> perf_now e < selectUntil st)"
proof -
  have "highlightDrawn (snd (draw st e preds)) \<longleftrightarrow>
          (\<exists>i. i < length (filterPeople (minScore st) preds)
                \<and> isChosen st (perf_now e) i)"
    by (simp add: highlightDrawn_def draw_def Let_def highlight_drawPerson
        isChosen_currentPeople ex_index_enumerate split_beta)
  then show ?thesis by (auto simp: isChosen_def)
qed

lemma snd_draw_cong:
  assumes "\<And>i. i < length (filterPeople (minScore st) preds) \<Longrightarrow>
             isChosen st (perf_now e) i = isChosen st2 (perf_now e) i"
    and "minScore st2 = minScore st"
  shows "snd (draw st e preds) = snd (draw st2 e preds)"
proof -
  have "drawPerson (st\<lparr>currentPeople := cp\<rparr>) e a b (fst x) (snd x)
        = drawPerson (st2\<lparr>currentPeople := cp\<rparr>) e a b (fst x) (snd x)"
    if "x \<in> set (enumerate 0 (filterPeople (minScore st) preds))" for x cp a b
    using that assms(1) [of "fst x"]
    by (intro drawPerson_cong) (simp add: isChosen_currentPeople in_set_enumerate_eq)
  then show ?thesis
    by (simp add: draw_def Let_def assms(2) split_beta cong: map_cong)
qed

text \<open>The calls of \<open>draw\<close>, given for each index and candidate what its block of calls is.\<close>

lemma snd_draw_blocks:
  assumes "\<And>i. i < length (filterPeople (minScore st) preds) \<Longrightarrow>
             drawPerson (st\<lparr>currentPeople := filterPeople (minScore st) preds\<rparr>) e
               (roundDouble (real (canvas_width e) /
                  (if videoWidth (video e) = 0 then 1280 else real (videoWidth (video e)))))
               (roundDouble (real (canvas_height e) /
                  (if videoHeight (video e) = 0 then 720 else real (videoHeight (video e)))))
               i (filterPeople (minScore st) preds ! i)
             = block i (filterPeople (minScore st) preds ! i)"
  shows "snd (draw st e preds) =
           ClearRect 0 0 (real (canvas_width e)) (real (canvas_height e)) #
           concat (map (\<lambda>(i, p). block i p) (enumerate 0 (filterPeople (minScore st) preds)))"
proof -
  define cp where "cp = filterPeople (minScore st) preds"
  define a where "a = roundDouble (real (canvas_width e) /
                  (if videoWidth (video e) = 0 then 1280 else real (videoWidth (video e))))"
  define b where "b = roundDouble (real (canvas_height e) /
                  (if videoHeight (video e) = 0 then 720 else real (videoHeight (video e))))"
  have m: "map (\<lambda>x. drawPerson (st\<lparr>currentPeople := cp\<rparr>) e a b (fst x) (snd x)) (enumerate 0 cp)
           = map (\<lambda>x. block (fst x) (snd x)) (enumerate 0 cp)"
    using assms unfolding cp_def [symmetric] a_def [symmetric] b_def [symmetric]
    by (intro map_cong refl) (auto simp: in_set_enumerate_eq)
  have d: "snd (draw st e preds) =
             ClearRect 0 0 (real (canvas_width e)) (real (canvas_height e)) #
             concat (map (\<lambda>x. drawPerson (st\<lparr>currentPeople := cp\<rparr>) e a b (fst x) (snd x))
                         (enumerate 0 cp))"
    by (simp add: draw_def Let_def split_def a_def b_def cp_def)
  show ?thesis
    unfolding d m by (simp add: split_def cp_def)
qed

text \<open>C3. With \<open>Math.random()\<close> a double in \<open>[0, 1)\<close> and a non-empty candidate list of size
  \<open>n\<close>, the index stored by the pick, the floor of the double product, lies in \<open>[0, n)\<close>.\<close>

theorem pick_index_in_range:
  "currentPeople st \<noteq> [] \<Longrightarrow> isDouble (random e) \<Longrightarrow> 0 \<le> random e \<Longrightarrow> random e < 1 \<Longrightarrow>
   (\<exists>i. selectedIdx (fst (pickSelect st e)) = Some i \<and> i < length (currentPeople st))"
  by (simp add: fst_pickSelect random_index_less)

theorem pick_index_in_range_witness:
  "currentPeople ex_six \<noteq> []
   \<and> isDouble (3752999689475413 / 4503599627370496)
   \<and> (0::real) \<le> 3752999689475413 / 4503599627370496
   \<and> (3752999689475413 / 4503599627370496 :: real) < 1
   \<and> selectedIdx (fst (pickSelect ex_six
                        (ex_env\<lparr>random := 3752999689475413 / 4503599627370496\<rparr>))) = Some 5
   \<and> 5 < length (currentPeople ex_six)"
proof -
  have d: "isDouble (3752999689475413 / 4503599627370496)"
    by (simp add: isDouble_def roundDouble_def ulp_def expo_def roundHalfEven_def Let_def
        bitlen_alt_def power_int_minus_divide)
  have b4: "bitlen 4 = 3"
    by code_simp
  have p: "roundDouble (11258999068426239 / 2251799813685248) = 5"
    by (simp add: roundDouble_def ulp_def expo_def b4 roundHalfEven_def Let_def
        power_int_minus_divide)
  have l: "length (currentPeople ex_six) = 6"
    by (simp add: ex_six_def)
  have s: "selectedIdx (fst (pickSelect ex_six
                        (ex_env\<lparr>random := 3752999689475413 / 4503599627370496\<rparr>))) = Some 5"
    by (simp add: fst_pickSelect l p)
  have n: "currentPeople ex_six \<noteq> []"
    by (simp add: ex_six_def)
  from pick_index_in_range [of ex_six "ex_env\<lparr>random := 3752999689475413 / 4503599627370496\<rparr>"]
    n d
  have "\<exists>i. selectedIdx (fst (pickSelect ex_six
                (ex_env\<lparr>random := 3752999689475413 / 4503599627370496\<rparr>))) = Some i
            \<and> i < length (currentPeople ex_six)"
    by simp
  then have "5 < length (currentPeople ex_six)"
    unfolding s by simp
  with n d s show ?thesis by simp
qed

lemma map_enumerate_snd:
  "map (\<lambda>(i, p). f p) (enumerate 0 xs) = map f xs"
  by (simp add: list_eq_iff_nth_eq nth_enumerate_eq)

text \<open>C4. A pick made at time \<open>T\<close> stores as expiry the double sum \<open>T + 3500\<close>: the sum itself
  when that is a double, and otherwise the double nearest to it, at most half a unit in
  the last place away. At a render at time \<open>T'\<close> the picked index counts as chosen iff
  \<open>T'\<close> is strictly below the stored expiry. The calls of that render are, for every
  candidate, the block below with the highlight style (stroke width 4, green stroke and
  fill, the "Selected!" label, the outer glow rectangle) for the picked index while \<open>T'\<close> is
  below the expiry, and with the normal style otherwise; so, the index being within the
  candidates, a highlight is drawn iff \<open>T'\<close> is below the expiry, and none at or after it.\<close>

theorem highlight_expiry:
  fixes st :: app_state and e e' :: "'px env" and preds :: "detection list" and k :: nat
  defines "st' \<equiv> fst (pickSelect st e)"
    and "expiry \<equiv> roundDouble (perf_now e + 3500)"
    and "scaleX \<equiv> roundDouble (real (canvas_width e') /
           (if videoWidth (video e') = 0 then 1280 else real (videoWidth (video e'))))"
    and "scaleY \<equiv> roundDouble (real (canvas_height e') /
           (if videoHeight (video e') = 0 then 720 else real (videoHeight (video e'))))"
  defines "box \<equiv> (\<lambda>chosen p. case bbox p of (x, y, w, h) \<Rightarrow>
        let rx = toNum (x * scaleX); ry = toNum (y * scaleY);
            rw = toNum (w * scaleX); rh = toNum (h * scaleY);
            label = (if chosen then party @ '' Selected!''
                     else ''person '' @ toFixed0 e' (toNum (score p * 100)) @ ''%'');
            ly = maxNum (addNum ry (- 30)) 0
        in [SetLineWidth (if chosen then 4 else 2),
            SetStrokeStyle (if chosen then ''#22c55e'' else ''#2563eb''),
            SetFillStyle (if chosen then ''rgba(34,197,94,0.15)'' else ''rgba(37,99,235,0.15)''),
            StrokeRect rx ry rw rh,
            FillRect rx ry rw rh,
            SetFont ''16px system-ui, -apple-system, Segoe UI, Roboto, Inter, Arial'',
            SetTextBaseline ''top'',
            SetFillStyle ''rgba(0,0,0,0.65)'',
            FillRect rx ly (toNum (measureText e' label + 12)) (Fin 30),
            SetFillStyle ''#fff'',
            FillText label (addNum rx 6) (addNum ly 4)]
           @ (if chosen
              then [BeginPath, SetLineWidth 6, SetStrokeStyle ''rgba(34,197,94,0.7)'',
                    StrokeRect (addNum rx (- 4)) (addNum ry (- 4)) (addNum rw 8) (addNum rh 8)]
              else []))"
  assumes k: "selectedIdx st' = Some k"
  shows "selectUntil st' = expiry
         \<and> (isDouble (perf_now e + 3500) \<longrightarrow> expiry = perf_now e + 3500)
         \<and> \<bar>expiry - (perf_now e + 3500)\<bar> \<le> ulp (perf_now e + 3500) / 2
         \<and> (isChosen st' (perf_now e') k \<longleftrightarrow> perf_now e' < expiry)
         \<and> snd (draw st' e' preds) =
             ClearRect 0 0 (real (canvas_width e')) (real (canvas_height e')) #
             concat (map (\<lambda>(i, p). box (i = k \<and> perf_now e' < expiry) p)
                         (enumerate 0 (filterPeople (minScore st) preds)))
         \<and> (k < length (filterPeople (minScore st) preds) \<longrightarrow>
              (highlightDrawn (snd (draw st' e' preds)) \<longleftrightarrow> perf_now e' < expiry))"
proof -
  have u: "selectUntil st' = expiry" and m: "minScore st' = minScore st"
    by (simp_all add: st'_def expiry_def fst_pickSelect)
  have d: "isDouble (perf_now e + 3500) \<longrightarrow> expiry = perf_now e + 3500"
    by (simp add: isDouble_def expiry_def)
  have r: "\<bar>expiry - (perf_now e + 3500)\<bar> \<le> ulp (perf_now e + 3500) / 2"
    using roundDouble_upper [of "perf_now e + 3500"] roundDouble_lower [of "perf_now e + 3500"]
    unfolding expiry_def by linarith
  have c: "isChosen st' t i \<longleftrightarrow> i = k \<and> t < expiry" for t i
    using k u by (auto simp: isChosen_def)
  have "drawPerson (st'\<lparr>currentPeople := cp\<rparr>) e' scaleX scaleY i p
        = box (i = k \<and> perf_now e' < expiry) p" for cp i p
    by (cases "bbox p")
       (simp add: drawPerson_def box_def Let_def isChosen_currentPeople c)
  then have b: "snd (draw st' e' preds) =
             ClearRect 0 0 (real (canvas_width e')) (real (canvas_height e')) #
             concat (map (\<lambda>(i, p). box (i = k \<and> perf_now e' < expiry) p)
                         (enumerate 0 (filterPeople (minScore st) preds)))"
    using snd_draw_blocks [of st' preds e' "\<lambda>i p. box (i = k \<and> perf_now e' < expiry) p"]
    unfolding scaleX_def scaleY_def m by simp
  have h: "k < length (filterPeople (minScore st) preds) \<longrightarrow>
              (highlightDrawn (snd (draw st' e' preds)) \<longleftrightarrow> perf_now e' < expiry)"
    using k u by (simp add: highlight_draw m)
  from u d r c [of "perf_now e'" k] b h show ?thesis by simp
qed

lemma roundDouble_1: "roundDouble 1 = 1"
  using roundDouble_of_int [of 1] by simp

theorem highlight_expiry_witness:
  "selectedIdx (fst (pickSelect ex_two ex_env)) = Some 1
   \<and> isDouble (perf_now ex_env + 3500)
   \<and> 1 < length (filterPeople (minScore ex_two) ex_preds)
   \<and> selectUntil (fst (pickSelect ex_two ex_env)) = 4500
   \<and> \<not> highlightDrawn
         (snd (draw (fst (pickSelect ex_two ex_env)) (ex_env\<lparr>perf_now := 4500\<rparr>) ex_preds))
   \<and> highlightDrawn
         (snd (draw (fst (pickSelect ex_two ex_env)) (ex_env\<lparr>perf_now := 4499\<rparr>) ex_preds))
   \<and> drop 12 (snd (draw (fst (pickSelect ex_two ex_env)) (ex_env\<lparr>perf_now := 4499\<rparr>) ex_preds)) =
       [SetLineWidth 4, SetStrokeStyle ''#22c55e'', SetFillStyle ''rgba(34,197,94,0.15)'',
        StrokeRect (Fin 1000) (Fin 200) (Fin 180) (Fin 420),
        FillRect (Fin 1000) (Fin 200) (Fin 180) (Fin 420),
        SetFont ''16px system-ui, -apple-system, Segoe UI, Roboto, Inter, Arial'',
        SetTextBaseline ''top'', SetFillStyle ''rgba(0,0,0,0.65)'',
        FillRect (Fin 1000) (Fin 170) (Fin 124) (Fin 30),
        SetFillStyle ''#fff'',
        FillText (party @ '' Selected!'') (Fin 1006) (Fin 174),
        BeginPath, SetLineWidth 6, SetStrokeStyle ''rgba(34,197,94,0.7)'',
        StrokeRect (Fin 996) (Fin 196) (Fin 188) (Fin 428)]
   \<and> selectUntil (fst (pickSelect ex_two
                         (ex_env\<lparr>perf_now := 3602879701896397 / 36028797018963968\<rparr>)))
       = 7696801296757555 / 2199023255552
   \<and> (7696801296757555 / 2199023255552 :: real) < 3602879701896397 / 36028797018963968 + 3500
   \<and> \<not> highlightDrawn
         (snd (draw (fst (pickSelect ex_two
                            (ex_env\<lparr>perf_now := 3602879701896397 / 36028797018963968\<rparr>)))
                    (ex_env\<lparr>perf_now := 7696801296757555 / 2199023255552\<rparr>) ex_preds))"
proof -
  have k: "selectedIdx (fst (pickSelect ex_two ex_env)) = Some 1"
    by (simp add: fst_pickSelect ex_two_def ex_state_def ex_env_def roundDouble_1)
  have n: "1 < length (filterPeople (minScore ex_two) ex_preds)"
    by (simp add: filterPeople_def ex_two_def ex_state_def ex_preds_def)
  have f: "filterPeople (minScore ex_two) ex_preds = [ex_preds ! 0, ex_preds ! 2]"
    by (simp add: filterPeople_def ex_two_def ex_state_def ex_preds_def)
  have t: "roundDouble (perf_now ex_env + 3500) = 4500"
    by (simp add: ex_env_def roundDouble_numeral)
  have d: "isDouble (perf_now ex_env + 3500)"
    by (simp add: isDouble_def ex_env_def roundDouble_numeral)
  note at_expiry = highlight_expiry [OF k, of "ex_env\<lparr>perf_now := 4500\<rparr>" ex_preds, unfolded t]
  note before = highlight_expiry [OF k, of "ex_env\<lparr>perf_now := 4499\<rparr>" ex_preds, unfolded t]
  note c2 = conjunct2
  have k': "selectedIdx (fst (pickSelect ex_two
                (ex_env\<lparr>perf_now := 3602879701896397 / 36028797018963968\<rparr>))) = Some 1"
    by (simp add: fst_pickSelect ex_two_def ex_state_def ex_env_def roundDouble_1)
  have b3500: "bitlen 3500 = 12"
    by code_simp
  have t': "roundDouble (perf_now (ex_env\<lparr>perf_now := 3602879701896397 / 36028797018963968\<rparr>)
                         + 3500) = 7696801296757555 / 2199023255552"
    by (simp add: roundDouble_def ulp_def expo_def b3500 roundHalfEven_def Let_def
        power_int_minus_divide)
  note tenth = highlight_expiry [OF k',
      of "ex_env\<lparr>perf_now := 7696801296757555 / 2199023255552\<rparr>" ex_preds, unfolded t']
  have "selectUntil (fst (pickSelect ex_two ex_env)) = 4500"
    by (rule before [THEN conjunct1])
  moreover have "\<not> highlightDrawn
         (snd (draw (fst (pickSelect ex_two ex_env)) (ex_env\<lparr>perf_now := 4500\<rparr>) ex_preds))"
    using at_expiry [THEN c2, THEN c2, THEN c2, THEN c2, THEN c2, rule_format, OF n] by simp
  moreover have "highlightDrawn
         (snd (draw (fst (pickSelect ex_two ex_env)) (ex_env\<lparr>perf_now := 4499\<rparr>) ex_preds))"
    using before [THEN c2, THEN c2, THEN c2, THEN c2, THEN c2, rule_format, OF n] by simp
  moreover have "drop 12 (snd (draw (fst (pickSelect ex_two ex_env)) (ex_env\<lparr>perf_now := 4499\<rparr>) ex_preds)) =
       [SetLineWidth 4, SetStrokeStyle ''#22c55e'', SetFillStyle ''rgba(34,197,94,0.15)'',
        StrokeRect (Fin 1000) (Fin 200) (Fin 180) (Fin 420),
        FillRect (Fin 1000) (Fin 200) (Fin 180) (Fin 420),
        SetFont ''16px system-ui, -apple-system, Segoe UI, Roboto, Inter, Arial'',
        SetTextBaseline ''top'', SetFillStyle ''rgba(0,0,0,0.65)'',
        FillRect (Fin 1000) (Fin 170) (Fin 124) (Fin 30),
        SetFillStyle ''#fff'',
        FillText (party @ '' Selected!'') (Fin 1006) (Fin 174),
        BeginPath, SetLineWidth 6, SetStrokeStyle ''rgba(34,197,94,0.7)'',
        StrokeRect (Fin 996) (Fin 196) (Fin 188) (Fin 428)]"
    unfolding before [THEN c2, THEN c2, THEN c2, THEN c2, THEN conjunct1] f
    by (simp add: ex_env_def ex_video_def ex_preds_def Let_def party_def
        addNum_def maxNum_def roundDouble_numeral toNum_numeral)
  moreover have "selectUntil (fst (pickSelect ex_two
                         (ex_env\<lparr>perf_now := 3602879701896397 / 36028797018963968\<rparr>)))
       = 7696801296757555 / 2199023255552"
    using tenth [THEN conjunct1] by simp
  moreover have "(7696801296757555 / 2199023255552 :: real)
                 < 3602879701896397 / 36028797018963968 + 3500"
    by simp
  moreover have "\<not> highlightDrawn
         (snd (draw (fst (pickSelect ex_two
                            (ex_env\<lparr>perf_now := 3602879701896397 / 36028797018963968\<rparr>)))
                    (ex_env\<lparr>perf_now := 7696801296757555 / 2199023255552\<rparr>) ex_preds))"
    using tenth [THEN c2, THEN c2, THEN c2, THEN c2, THEN c2, rule_format, OF n] by simp
  ultimately show ?thesis using k n d by (intro conjI)
qed

text \<open>C8. When the stored index is out of range for the candidates of a render, \<open>draw\<close>
  clears the overlay and draws every candidate in the normal style: stroke width 2, the
  blue stroke and fill, the box, the label background and the label "person N%", and no
  glow rectangle. These are exactly the calls it makes with no selection at all, and no
  highlight appears. \<open>draw\<close> has no failing branch; the list is refreshed as usual and the
  stale index stays stored.\<close>

theorem stale_index_skipped:
  fixes st :: app_state and e :: "'px env" and preds :: "detection list" and k :: nat
  defines "scaleX \<equiv> roundDouble (real (canvas_width e) /
           (if videoWidth (video e) = 0 then 1280 else real (videoWidth (video e))))"
    and "scaleY \<equiv> roundDouble (real (canvas_height e) /
           (if videoHeight (video e) = 0 then 720 else real (videoHeight (video e))))"
  defines "normalBox \<equiv> (\<lambda>p. case bbox p of (x, y, w, h) \<Rightarrow>
        let rx = toNum (x * scaleX); ry = toNum (y * scaleY);
            rw = toNum (w * scaleX); rh = toNum (h * scaleY);
            label = ''person '' @ toFixed0 e (toNum (score p * 100)) @ ''%'';
            ly = maxNum (addNum ry (- 30)) 0
        in [SetLineWidth 2,
            SetStrokeStyle ''#2563eb'',
            SetFillStyle ''rgba(37,99,235,0.15)'',
            StrokeRect rx ry rw rh,
            FillRect rx ry rw rh,
            SetFont ''16px system-ui, -apple-system, Segoe UI, Roboto, Inter, Arial'',
            SetTextBaseline ''top'',
            SetFillStyle ''rgba(0,0,0,0.65)'',
            FillRect rx ly (toNum (measureText e label + 12)) (Fin 30),
            SetFillStyle ''#fff'',
            FillText label (addNum rx 6) (addNum ly 4)])"
  assumes k: "selectedIdx st = Some k"
    and n: "length (filterPeople (minScore st) preds) \<le> k"
  shows "snd (draw st e preds) =
           ClearRect 0 0 (real (canvas_width e)) (real (canvas_height e)) #
           concat (map normalBox (filterPeople (minScore st) preds))
         \<and> snd (draw st e preds) = snd (draw (st\<lparr>selectedIdx := None\<rparr>) e preds)
         \<and> \<not> highlightDrawn (snd (draw st e preds))
         \<and> currentPeople (fst (draw st e preds)) = filterPeople (minScore st) preds
         \<and> selectedIdx (fst (draw st e preds)) = Some k"
proof -
  have "drawPerson (st\<lparr>currentPeople := cp\<rparr>) e scaleX scaleY i p = normalBox p"
    if "i < length (filterPeople (minScore st) preds)" for cp i p
    using that k n
    by (cases "bbox p")
       (simp add: drawPerson_def normalBox_def Let_def isChosen_def)
  then have "snd (draw st e preds) =
           ClearRect 0 0 (real (canvas_width e)) (real (canvas_height e)) #
           concat (map (\<lambda>(i, p). normalBox p) (enumerate 0 (filterPeople (minScore st) preds)))"
    using snd_draw_blocks [of st preds e "\<lambda>i p. normalBox p"]
    unfolding scaleX_def scaleY_def by simp
  then have b: "snd (draw st e preds) =
           ClearRect 0 0 (real (canvas_width e)) (real (canvas_height e)) #
           concat (map normalBox (filterPeople (minScore st) preds))"
    by (simp only: map_enumerate_snd)
  have "snd (draw st e preds) = snd (draw (st\<lparr>selectedIdx := None\<rparr>) e preds)"
    using k n by (intro snd_draw_cong) (auto simp: isChosen_def)
  moreover have "\<not> highlightDrawn (snd (draw st e preds))"
    using k n by (auto simp: highlight_draw)
  moreover have "selectedIdx (fst (draw st e preds)) = Some k"
    using k by (simp add: draw_def Let_def)
  moreover have "currentPeople (fst (draw st e preds)) = filterPeople (minScore st) preds"
    by (rule currentPeople_draw)
  ultimately show ?thesis using b by (intro conjI)
qed

theorem stale_index_skipped_witness:
  "selectedIdx ex_stale = Some 5
   \<and> length (filterPeople (minScore ex_stale) ex_preds) \<le> 5
   \<and> perf_now ex_env < selectUntil ex_stale
   \<and> snd (draw ex_stale ex_env ex_preds) =
       [ClearRect 0 0 1280 960,
        SetLineWidth 2, SetStrokeStyle ''#2563eb'', SetFillStyle ''rgba(37,99,235,0.15)'',
        StrokeRect (Fin 20) (Fin 40) (Fin 200) (Fin 400),
        FillRect (Fin 20) (Fin 40) (Fin 200) (Fin 400),
        SetFont ''16px system-ui, -apple-system, Segoe UI, Roboto, Inter, Arial'',
        SetTextBaseline ''top'', SetFillStyle ''rgba(0,0,0,0.65)'',
        FillRect (Fin 20) (Fin 10) (Fin 92) (Fin 30),
        SetFillStyle ''#fff'',
        FillText ''person 75%'' (Fin 26) (Fin 14)]
   \<and> snd (draw ex_stale ex_env ex_preds) = snd (draw (ex_stale\<lparr>selectedIdx := None\<rparr>) ex_env ex_preds)
   \<and> \<not> highlightDrawn (snd (draw ex_stale ex_env ex_preds))
   \<and> length (currentPeople (fst (draw ex_stale ex_env ex_preds))) = 1"
proof -
  have k: "selectedIdx ex_stale = Some 5"
    by (simp add: ex_stale_def)
  have n: "length (filterPeople (minScore ex_stale) ex_preds) \<le> 5"
    by (simp add: filterPeople_def ex_stale_def ex_state_def ex_preds_def)
  have m: "filterPeople (minScore ex_stale) ex_preds = [ex_preds ! 0]"
    by (simp add: filterPeople_def ex_stale_def ex_state_def ex_preds_def)
  have t: "perf_now ex_env < selectUntil ex_stale"
    by (simp add: ex_env_def ex_stale_def)
  note r = stale_index_skipped [OF k n, of ex_env]
  note c2 = conjunct2
  have "snd (draw ex_stale ex_env ex_preds) =
       [ClearRect 0 0 1280 960,
        SetLineWidth 2, SetStrokeStyle ''#2563eb'', SetFillStyle ''rgba(37,99,235,0.15)'',
        StrokeRect (Fin 20) (Fin 40) (Fin 200) (Fin 400),
        FillRect (Fin 20) (Fin 40) (Fin 200) (Fin 400),
        SetFont ''16px system-ui, -apple-system, Segoe UI, Roboto, Inter, Arial'',
        SetTextBaseline ''top'', SetFillStyle ''rgba(0,0,0,0.65)'',
        FillRect (Fin 20) (Fin 10) (Fin 92) (Fin 30),
        SetFillStyle ''#fff'',
        FillText ''person 75%'' (Fin 26) (Fin 14)]"
    unfolding r [THEN conjunct1] m
    by (simp add: ex_env_def ex_video_def ex_preds_def Let_def
        addNum_def maxNum_def roundDouble_numeral toNum_numeral)
  moreover have "snd (draw ex_stale ex_env ex_preds)
                 = snd (draw (ex_stale\<lparr>selectedIdx := None\<rparr>) ex_env ex_preds)"
    by (rule r [THEN c2, THEN conjunct1])
  moreover have "\<not> highlightDrawn (snd (draw ex_stale ex_env ex_preds))"
    by (rule r [THEN c2, THEN c2, THEN conjunct1])
  moreover have "length (currentPeople (fst (draw ex_stale ex_env ex_preds))) = 1"
    unfolding r [THEN c2, THEN c2, THEN c2, THEN conjunct1] m by simp
  ultimately show ?thesis using k n t by (intro conjI)
qed

text \<open>C9. A click on the pick button while the candidate list is empty shows the toast
  "No students detected. Adjust camera/angle." for 2000 ms and returns: no index is
  selected, the expiry time is untouched, no countdown is started, and \<open>running\<close> is
  unchanged, so the next cycle of the refresh loop schedules itself exactly when it would
  have before.\<close>

theorem empty_pick_notice:
  fixes e :: "'px env"
  assumes "currentPeople st = []"
  shows "pickClick st =
           (st\<lparr>selectedIdx := None\<rparr>,
            [ShowToast ''No students detected. Adjust camera/angle.'' 2000 :: 'px ui_effect],
            None)
         \<and> selectedIdx (fst (pickClick st :: app_state \<times> 'px ui_effect list \<times> pick_stage option))
             = None
         \<and> selectUntil (fst (pickClick st :: app_state \<times> 'px ui_effect list \<times> pick_stage option))
             = selectUntil st
         \<and> running (fst (pickClick st :: app_state \<times> 'px ui_effect list \<times> pick_stage option))
             = running st
         \<and> snd (snd (loop (fst (pickClick st :: app_state \<times> 'px ui_effect list \<times> pick_stage option))
                       e preds)) = running st"
  using assms by (simp add: pickClick_def loop_def split: prod.splits)

theorem empty_pick_notice_witness:
  "currentPeople ex_state = []
   \<and> (pickClick ex_state :: app_state \<times> nat ui_effect list \<times> pick_stage option) =
       (ex_state, [ShowToast ''No students detected. Adjust camera/angle.'' 2000], None)
   \<and> snd (snd (loop (fst (pickClick ex_state :: app_state \<times> nat ui_effect list \<times> pick_stage option))
                 ex_env ex_preds))"
proof -
  have h: "currentPeople ex_state = []"
    by (simp add: ex_state_def)
  have s: "ex_state\<lparr>selectedIdx := None\<rparr> = ex_state"
    by (simp add: ex_state_def)
  have r: "running ex_state"
    by (simp add: ex_state_def)
  from empty_pick_notice [OF h, of ex_env ex_preds, unfolded s] r
  have "(pickClick ex_state :: app_state \<times> nat ui_effect list \<times> pick_stage option) =
          (ex_state, [ShowToast ''No students detected. Adjust camera/angle.'' 2000], None)"
    and "snd (snd (loop (fst (pickClick ex_state :: app_state \<times> nat ui_effect list \<times> pick_stage option))
                 ex_env ex_preds))"
    by (elim conjE, simp)+
  with h show ?thesis by (intro conjI)
qed

text \<open>C10. A click on the pick button while the candidate list is empty sets \<open>selectedIdx\<close>
  to \<open>null\<close>, whatever it held: from the resulting state no render draws a highlight, at
  any time and for any detections.\<close>

theorem empty_pick_clears_selection:
  fixes e :: "'px env"
  assumes "currentPeople st = []"
  shows "selectedIdx (fst (pickClick st :: app_state \<times> 'px ui_effect list \<times> pick_stage option))
           = None
         \<and> \<not> highlightDrawn
               (snd (draw (fst (pickClick st :: app_state \<times> 'px ui_effect list \<times> pick_stage option))
                          e preds))"
  using assms by (simp add: pickClick_def highlight_draw)

theorem empty_pick_clears_selection_witness:
  "currentPeople ex_earlier = []
   \<and> selectedIdx ex_earlier = Some 0
   \<and> highlightDrawn (snd (draw ex_earlier ex_env ex_preds))
   \<and> selectedIdx (fst (pickClick ex_earlier :: app_state \<times> nat ui_effect list \<times> pick_stage option))
       = None
   \<and> \<not> highlightDrawn
         (snd (draw (fst (pickClick ex_earlier :: app_state \<times> nat ui_effect list \<times> pick_stage option))
                    ex_env ex_preds))"
proof -
  have h: "currentPeople ex_earlier = []"
    by (simp add: ex_earlier_def ex_state_def)
  have b: "highlightDrawn (snd (draw ex_earlier ex_env ex_preds))"
    by (simp add: highlight_draw filterPeople_def ex_earlier_def ex_state_def ex_env_def
        ex_preds_def)
  show ?thesis
    using h b empty_pick_clears_selection [OF h, of ex_env ex_preds]
    by (simp add: ex_earlier_def)
qed

section \<open>The crop\<close>

lemma floor_int_plus_half: "\<lfloor>real_of_int k + 1 / 2\<rfloor> = k"
  by linarith

lemma floor_int_minus_half: "\<lfloor>real_of_int k - 1 / 2\<rfloor> = k - 1"
  by linarith

lemma unit_scale: "(z::real) \<noteq> 0 \<Longrightarrow> a + (u - 0) * z / z = a + u"
  by simp

lemma samplePixel_inside:
  assumes "ma m * md m - mb m * mc m = dt" "dt \<noteq> 0" "0 < sw" "0 < sh" "0 < dw" "0 < dh"
    and "(md m * (real col + 1 / 2 - me m) - mc m * (real row + 1 / 2 - mf m)) / dt = ux"
    and "(ma m * (real row + 1 / 2 - mf m) - mb m * (real col + 1 / 2 - me m)) / dt = uy"
    and "dx \<le> ux" "ux < dx + dw" "dy \<le> uy" "uy < dy + dh"
  shows "samplePixel m v sx sy sw sh dx dy dw dh col row
         = videoPixel v \<lfloor>sx + (ux - dx) * sw / dw\<rfloor> \<lfloor>sy + (uy - dy) * sh / dh\<rfloor>"
  using assms unfolding samplePixel_def Let_def by simp

lemma videoPixel_inside:
  "0 \<le> i \<Longrightarrow> i < int (videoWidth v) \<Longrightarrow> 0 \<le> j \<Longrightarrow> j < int (videoHeight v) \<Longrightarrow>
   videoPixel v i j = Some (framePixel v (nat i) (nat j))"
  by (simp add: videoPixel_def)

lemma samplePixel_plain:
  assumes "0 \<le> sx" "0 \<le> sy" "sx + sw \<le> int (videoWidth v)" "sy + sh \<le> int (videoHeight v)"
    and "col < nat sw" "row < nat sh"
  shows "samplePixel \<lparr>ma = 1, mb = 0, mc = 0, md = 1, me = 0, mf = 0\<rparr> v
           (real_of_int sx) (real_of_int sy) (real_of_int sw) (real_of_int sh)
           0 0 (real_of_int sw) (real_of_int sh) col row
         = Some (framePixel v (nat sx + col) (nat sy + row))"
proof -
  have pos: "0 < sw" "0 < sh" using assms by auto
  have nz: "real_of_int sw \<noteq> 0" "real_of_int sh \<noteq> 0" using pos by simp_all
  have ex: "real_of_int sx + (real col + 1 / 2) = real_of_int (sx + int col) + 1 / 2" by simp
  have ey: "real_of_int sy + (real row + 1 / 2) = real_of_int (sy + int row) + 1 / 2" by simp
  have inx: "real col + 1 / 2 < real_of_int sw" using assms(5) by linarith
  have iny: "real row + 1 / 2 < real_of_int sh" using assms(6) by linarith
  have nx: "nat (sx + int col) = nat sx + col" using assms(1) by linarith
  have ny: "nat (sy + int row) = nat sy + row" using assms(2) by linarith
  have "samplePixel \<lparr>ma = 1, mb = 0, mc = 0, md = 1, me = 0, mf = 0\<rparr> v
           (real_of_int sx) (real_of_int sy) (real_of_int sw) (real_of_int sh)
           0 0 (real_of_int sw) (real_of_int sh) col row
        = videoPixel v (sx + int col) (sy + int row)"
    using pos inx iny
    by (subst samplePixel_inside [where dt = 1 and ux = "real col + 1 / 2" and uy = "real row + 1 / 2"])
       (simp_all only: unit_scale [OF nz(1)] unit_scale [OF nz(2)] ex ey floor_int_plus_half, simp_all)
  also have "\<dots> = Some (framePixel v (nat (sx + int col)) (nat (sy + int row)))"
    using assms by (intro videoPixel_inside) linarith+
  finally show ?thesis by (simp only: nx ny)
qed

lemma samplePixel_mirrored:
  assumes "0 \<le> sx" "0 \<le> sy" "sx + sw \<le> int (videoWidth v)" "sy + sh \<le> int (videoHeight v)"
    and "col < nat sw" "row < nat sh"
  shows "samplePixel \<lparr>ma = - 1, mb = 0, mc = 0, md = 1, me = real_of_int sw, mf = 0\<rparr> v
           (real_of_int sx) (real_of_int sy) (real_of_int sw) (real_of_int sh)
           0 0 (real_of_int sw) (real_of_int sh) col row
         = Some (framePixel v (nat sx + (nat sw - 1 - col)) (nat sy + row))"
proof -
  have pos: "0 < sw" "0 < sh" using assms by auto
  have nz: "real_of_int sw \<noteq> 0" "real_of_int sh \<noteq> 0" using pos by simp_all
  define ux where "ux = real_of_int (sw - int col) - 1 / 2"
  have ex: "real_of_int sx + ux = real_of_int (sx + sw - int col) - 1 / 2"
    by (simp add: ux_def)
  have ey: "real_of_int sy + (real row + 1 / 2) = real_of_int (sy + int row) + 1 / 2" by simp
  have inx: "0 \<le> ux" "ux < 0 + real_of_int sw"
    using assms(5) unfolding ux_def by (simp_all; linarith)+
  have iny: "real row + 1 / 2 < 0 + real_of_int sh" using assms(6) by linarith
  have nx: "nat (sx + sw - int col - 1) = nat sx + (nat sw - 1 - col)" using assms(1,5) by linarith
  have ny: "nat (sy + int row) = nat sy + row" using assms(2) by linarith
  have "samplePixel \<lparr>ma = - 1, mb = 0, mc = 0, md = 1, me = real_of_int sw, mf = 0\<rparr> v
           (real_of_int sx) (real_of_int sy) (real_of_int sw) (real_of_int sh)
           0 0 (real_of_int sw) (real_of_int sh) col row
        = videoPixel v \<lfloor>real_of_int sx + (ux - 0) * real_of_int sw / real_of_int sw\<rfloor>
            \<lfloor>real_of_int sy + (real row + 1 / 2 - 0) * real_of_int sh / real_of_int sh\<rfloor>"
  proof (rule samplePixel_inside [where dt = "- 1"])
    show "(md \<lparr>ma = - 1, mb = 0, mc = 0, md = 1, me = real_of_int sw, mf = 0\<rparr> *
            (real col + 1 / 2 - me \<lparr>ma = - 1, mb = 0, mc = 0, md = 1, me = real_of_int sw, mf = 0\<rparr>)
           - mc \<lparr>ma = - 1, mb = 0, mc = 0, md = 1, me = real_of_int sw, mf = 0\<rparr> *
            (real row + 1 / 2 - mf \<lparr>ma = - 1, mb = 0, mc = 0, md = 1, me = real_of_int sw, mf = 0\<rparr>))
          / - 1 = ux"
      by (simp add: ux_def)
  qed (use pos inx iny in simp_all)
  also have "\<dots> = videoPixel v (sx + sw - int col - 1) (sy + int row)"
    by (simp only: unit_scale [OF nz(1)] unit_scale [OF nz(2)] ex ey floor_int_plus_half
        floor_int_minus_half)
  also have "\<dots> = Some (framePixel v (nat (sx + sw - int col - 1)) (nat (sy + int row)))"
    using assms by (intro videoPixel_inside) linarith+
  finally show ?thesis by (simp only: nx ny)
qed

lemma clampBox_bounds:
  "clampBox vw vh b = (sx, sy, sw, sh) \<Longrightarrow>
   0 \<le> sx \<and> 0 \<le> sy \<and> sx + sw \<le> int vw \<and> sy + sh \<le> int vh"
  by (auto simp: clampBox_def Let_def split: prod.splits)

lemma pixels_plain:
  assumes "0 \<le> sx" "0 \<le> sy" "sx + sw \<le> int (videoWidth v)" "sy + sh \<le> int (videoHeight v)"
  shows "cv_pixels (drawImage (createCanvas (nat sw) (nat sh)) v
           (real_of_int sx) (real_of_int sy) (real_of_int sw) (real_of_int sh)
           0 0 (real_of_int sw) (real_of_int sh))
         = map (\<lambda>row. map (\<lambda>col. Some (framePixel v (nat sx + col) (nat sy + row)))
                          [0..<nat sw]) [0..<nat sh]"
  using assms
  by (simp add: drawImage_def createCanvas_def samplePixel_plain cong: map_cong)

lemma pixels_mirrored:
  assumes "0 \<le> sx" "0 \<le> sy" "sx + sw \<le> int (videoWidth v)" "sy + sh \<le> int (videoHeight v)"
  shows "cv_pixels (drawImage (scale (translate (createCanvas (nat sw) (nat sh)) (real_of_int sw) 0)
                                 (- 1) 1) v
           (real_of_int sx) (real_of_int sy) (real_of_int sw) (real_of_int sh)
           0 0 (real_of_int sw) (real_of_int sh))
         = map (\<lambda>row. map (\<lambda>col. Some (framePixel v (nat sx + (nat sw - 1 - col)) (nat sy + row)))
                          [0..<nat sw]) [0..<nat sh]"
  using assms
  by (simp add: drawImage_def createCanvas_def scale_def translate_def Let_def
      samplePixel_mirrored cong: map_cong)

lemma size_drawImage:
  "cv_width (drawImage cv v a b c d e f g h) = cv_width cv"
  "cv_height (drawImage cv v a b c d e f g h) = cv_height cv"
  by (simp_all add: drawImage_def)

lemma capture_result:
  assumes "videoWidth v \<noteq> 0" "videoHeight v \<noteq> 0"
    and "clampBox (videoWidth v) (videoHeight v) (bbox d) = (sx, sy, sw, sh)"
    and "1 < sw" "1 < sh"
  shows "captureSelectedCrop st v (Some d) =
           Inr (Some \<lparr>img_width = nat sw, img_height = nat sh,
                      img_pixels =
                        map (\<lambda>row. map (\<lambda>col. Some (framePixel v
                                 (nat sx + (if facingMode st = User then nat sw - 1 - col else col))
                                 (nat sy + row)))
                               [0..<nat sw]) [0..<nat sh]\<rparr>)"
proof -
  from clampBox_bounds [OF assms(3)]
  have b: "0 \<le> sx" "0 \<le> sy" "sx + sw \<le> int (videoWidth v)" "sy + sh \<le> int (videoHeight v)"
    by simp_all
  show ?thesis
    using assms
    by (simp add: captureSelectedCrop_def Let_def toDataURL_def size_drawImage
        pixels_plain [OF b] pixels_mirrored [OF b])
       (simp add: createCanvas_def scale_def translate_def)
qed

lemma capture_null_iff:
  "captureSelectedCrop st v (Some d) = Inr None \<longleftrightarrow>
     videoWidth v = 0 \<or> videoHeight v = 0
     \<or> fst (snd (snd (clampBox (videoWidth v) (videoHeight v) (bbox d)))) \<le> 1
     \<or> snd (snd (snd (clampBox (videoWidth v) (videoHeight v) (bbox d)))) \<le> 1"
  by (auto simp: captureSelectedCrop_def Let_def split: prod.splits)

lemma capture_no_throw: "captureSelectedCrop st v (Some d) \<noteq> Inl err"
  by (simp add: captureSelectedCrop_def Let_def split: prod.splits)

lemma upt_0_3: "[0..<3] = [0, 1, 2::nat]"
  by (simp add: upt_conv_Cons)

lemma upt_0_2: "[0..<2] = [0, 1::nat]"
  by (simp add: upt_conv_Cons)

lemma ex_capture_rear:
  "captureSelectedCrop (ex_state\<lparr>facingMode := Environment\<rparr>) ex_video (Some ex_det)
   = Inr (Some ex_rear)"
  by (simp add: captureSelectedCrop_def clampBox_def ex_video_def ex_det_def ex_rear_def Let_def
      toDataURL_def drawImage_def createCanvas_def samplePixel_def videoPixel_def
      upt_0_3 upt_0_2)

lemma ex_capture_front:
  "captureSelectedCrop (ex_state\<lparr>facingMode := User\<rparr>) ex_video (Some ex_det)
   = Inr (Some ex_front)"
  by (simp add: captureSelectedCrop_def clampBox_def ex_video_def ex_det_def ex_front_def Let_def
      toDataURL_def drawImage_def createCanvas_def samplePixel_def videoPixel_def
      scale_def translate_def upt_0_3 upt_0_2)

lemma ex_clamp:
  "clampBox (videoWidth ex_video) (videoHeight ex_video) (bbox ex_det) = (10, 20, 3, 2)"
  by (simp add: clampBox_def ex_video_def ex_det_def Let_def)

text \<open>C2, as amended. \<open>captureSelectedCrop\<close> returns \<open>null\<close> exactly when a video dimension
  is unknown (zero) or the clamped box has width or height at most 1; it never throws for
  a detection; and it returns \<open>null\<close> for every box that starts at or beyond the right or
  the bottom edge of the frame.\<close>

theorem capture_none_iff:
  "bbox d = (x, y, w, h) \<Longrightarrow>
   (captureSelectedCrop st v (Some d) = Inr None \<longleftrightarrow>
      videoWidth v = 0 \<or> videoHeight v = 0
      \<or> min (int (videoWidth v) - max 0 \<lfloor>x\<rfloor>) \<lfloor>w\<rfloor> \<le> 1
      \<or> min (int (videoHeight v) - max 0 \<lfloor>y\<rfloor>) \<lfloor>h\<rfloor> \<le> 1)
   \<and> captureSelectedCrop st v (Some d) \<noteq> Inl TypeError
   \<and> (real (videoWidth v) \<le> x \<or> real (videoHeight v) \<le> y \<longrightarrow>
        captureSelectedCrop st v (Some d) = Inr None)"
proof -
  assume b: "bbox d = (x, y, w, h)"
  have iff: "captureSelectedCrop st v (Some d) = Inr None \<longleftrightarrow>
      videoWidth v = 0 \<or> videoHeight v = 0
      \<or> min (int (videoWidth v) - max 0 \<lfloor>x\<rfloor>) \<lfloor>w\<rfloor> \<le> 1
      \<or> min (int (videoHeight v) - max 0 \<lfloor>y\<rfloor>) \<lfloor>h\<rfloor> \<le> 1"
    by (simp add: capture_null_iff b clampBox_def Let_def)
  have "int (videoWidth v) - max 0 \<lfloor>x\<rfloor> \<le> 1" if "real (videoWidth v) \<le> x"
  proof -
    from that have "int (videoWidth v) \<le> \<lfloor>x\<rfloor>" by (simp add: le_floor_iff)
    then show ?thesis by simp
  qed
  moreover have "int (videoHeight v) - max 0 \<lfloor>y\<rfloor> \<le> 1" if "real (videoHeight v) \<le> y"
  proof -
    from that have "int (videoHeight v) \<le> \<lfloor>y\<rfloor>" by (simp add: le_floor_iff)
    then show ?thesis by simp
  qed
  ultimately have "real (videoWidth v) \<le> x \<or> real (videoHeight v) \<le> y \<longrightarrow>
        captureSelectedCrop st v (Some d) = Inr None"
    unfolding iff by (auto simp: min_le_iff_disj)
  with iff show ?thesis by (simp add: capture_no_throw)
qed

theorem capture_none_iff_witness:
  "bbox ex_beyond = (real (videoWidth ex_video) + 10, 10, 50, 50)
   \<and> real (videoWidth ex_video) \<le> real (videoWidth ex_video) + 10
   \<and> captureSelectedCrop ex_state ex_video (Some ex_beyond) = Inr None"
proof -
  have b: "bbox ex_beyond = (real (videoWidth ex_video) + 10, 10, 50, 50)"
    by (simp add: ex_beyond_def ex_video_def)
  have le: "real (videoWidth ex_video) \<le> real (videoWidth ex_video) + 10"
    by simp
  from capture_none_iff [OF b, of ex_state ex_video] le
  have "captureSelectedCrop ex_state ex_video (Some ex_beyond) = Inr None"
    by blast
  with b le show ?thesis by (intro conjI)
qed

text \<open>C2 as stated fails: the box of \<open>ex_left\<close> ends at \<open>x + w = -50\<close>, so it lies fully
  outside the frame, and yet the crop is taken (of the 50 by 50 region at the frame's left
  edge).\<close>

theorem capture_outside_counterexample:
  "fst (bbox ex_left) + fst (snd (snd (bbox ex_left))) \<le> 0
   \<and> 0 \<le> fst (snd (snd (bbox ex_left)))
   \<and> captureSelectedCrop ex_state ex_video (Some ex_left) \<noteq> Inr None
   \<and> map_sum id (map_option img_width) (captureSelectedCrop ex_state ex_video (Some ex_left))
       = Inr (Some 50)"
  by (simp add: ex_left_def ex_video_def captureSelectedCrop_def clampBox_def Let_def
      toDataURL_def size_drawImage createCanvas_def scale_def translate_def)

lemma capture_Some_bounds:
  assumes "captureSelectedCrop st v (Some d) = Inr (Some img)"
    and "clampBox (videoWidth v) (videoHeight v) (bbox d) = (sx, sy, sw, sh)"
  shows "videoWidth v \<noteq> 0" "videoHeight v \<noteq> 0" "1 < sw" "1 < sh"
  using assms by (auto simp: captureSelectedCrop_def Let_def split: if_splits)

text \<open>C6. With known video dimensions and a clamped box \<open>(sx, sy, sw, sh)\<close> of width and
  height at least 2, the crop is an image of exactly \<open>sw\<close> by \<open>sh\<close> pixels: \<open>sh\<close> rows of \<open>sw\<close>
  pixels, each one pixel of the frame from the clamped region, taken at unit stride.\<close>

theorem capture_exact_size:
  "bbox d = (x, y, w, h) \<Longrightarrow> videoWidth v \<noteq> 0 \<Longrightarrow> videoHeight v \<noteq> 0 \<Longrightarrow>
   sx = max 0 \<lfloor>x\<rfloor> \<Longrightarrow> sy = max 0 \<lfloor>y\<rfloor> \<Longrightarrow>
   sw = min (int (videoWidth v) - sx) \<lfloor>w\<rfloor> \<Longrightarrow> sh = min (int (videoHeight v) - sy) \<lfloor>h\<rfloor> \<Longrightarrow>
   2 \<le> sw \<Longrightarrow> 2 \<le> sh \<Longrightarrow>
   (\<exists>img. captureSelectedCrop st v (Some d) = Inr (Some img)
      \<and> img_width img = nat sw \<and> img_height img = nat sh
      \<and> length (img_pixels img) = nat sh
      \<and> (\<forall>row < nat sh. length (img_pixels img ! row) = nat sw
           \<and> (\<forall>col < nat sw. img_pixels img ! row ! col =
                 Some (framePixel v
                        (nat sx + (if facingMode st = User then nat sw - 1 - col else col))
                        (nat sy + row)))))"
proof -
  assume a: "bbox d = (x, y, w, h)" "videoWidth v \<noteq> 0" "videoHeight v \<noteq> 0"
    "sx = max 0 \<lfloor>x\<rfloor>" "sy = max 0 \<lfloor>y\<rfloor>"
    "sw = min (int (videoWidth v) - sx) \<lfloor>w\<rfloor>" "sh = min (int (videoHeight v) - sy) \<lfloor>h\<rfloor>"
    "2 \<le> sw" "2 \<le> sh"
  have c: "clampBox (videoWidth v) (videoHeight v) (bbox d) = (sx, sy, sw, sh)"
    using a by (simp add: clampBox_def Let_def)
  have "1 < sw" "1 < sh" using a by simp_all
  from capture_result [OF a(2,3) c this, of st] show ?thesis
    by simp
qed

theorem capture_exact_size_witness:
  "bbox ex_det = (21 / 2, 20, 3, 5 / 2) \<and> videoWidth ex_video \<noteq> 0 \<and> videoHeight ex_video \<noteq> 0
   \<and> (2::int) \<le> min (int (videoWidth ex_video) - max 0 \<lfloor>21 / 2 :: real\<rfloor>) \<lfloor>3 :: real\<rfloor>
   \<and> (2::int) \<le> min (int (videoHeight ex_video) - max 0 \<lfloor>20 :: real\<rfloor>) \<lfloor>5 / 2 :: real\<rfloor>
   \<and> (\<exists>img. captureSelectedCrop ex_state ex_video (Some ex_det) = Inr (Some img)
         \<and> img_width img = 3 \<and> img_height img = 2)"
proof -
  have b: "bbox ex_det = (21 / 2, 20, 3, 5 / 2)"
    by (simp add: ex_det_def)
  have v: "videoWidth ex_video \<noteq> 0" "videoHeight ex_video \<noteq> 0"
    by (simp_all add: ex_video_def)
  have sw: "min (int (videoWidth ex_video) - max 0 \<lfloor>21 / 2 :: real\<rfloor>) \<lfloor>3 :: real\<rfloor> = 3"
    by (simp add: ex_video_def)
  have sh: "min (int (videoHeight ex_video) - max 0 \<lfloor>20 :: real\<rfloor>) \<lfloor>5 / 2 :: real\<rfloor> = 2"
    by (simp add: ex_video_def)
  have "\<exists>img. captureSelectedCrop ex_state ex_video (Some ex_det) = Inr (Some img)
         \<and> img_width img = 3 \<and> img_height img = 2"
    using capture_exact_size [OF b v refl refl refl refl, of ex_state] unfolding sw sh
    by auto
  with b v show ?thesis unfolding sw sh by simp
qed

text \<open>C5. With the front camera (\<open>facingMode = "user"\<close>) the crop is the horizontal mirror of
  the crop the rear camera setting gives for the same box and frame: in every row, column
  \<open>c\<close> of the front crop is column \<open>sw - 1 - c\<close> of the rear crop, \<open>sw\<close> being the clamped
  width; and the rear crop is the region itself, unmirrored.\<close>

theorem mirrored_capture:
  "captureSelectedCrop (st\<lparr>facingMode := User\<rparr>) v (Some d) = Inr (Some front) \<Longrightarrow>
   captureSelectedCrop (st\<lparr>facingMode := Environment\<rparr>) v (Some d) = Inr (Some rear) \<Longrightarrow>
   clampBox (videoWidth v) (videoHeight v) (bbox d) = (sx, sy, sw, sh) \<Longrightarrow>
   row < img_height front \<Longrightarrow> col < img_width front \<Longrightarrow>
   img_width front = nat sw \<and> img_width rear = nat sw \<and> img_height rear = img_height front
   \<and> img_pixels front ! row ! col = img_pixels rear ! row ! (nat sw - 1 - col)
   \<and> img_pixels rear ! row ! col = Some (framePixel v (nat sx + col) (nat sy + row))"
proof -
  assume f: "captureSelectedCrop (st\<lparr>facingMode := User\<rparr>) v (Some d) = Inr (Some front)"
    and r: "captureSelectedCrop (st\<lparr>facingMode := Environment\<rparr>) v (Some d) = Inr (Some rear)"
    and c: "clampBox (videoWidth v) (videoHeight v) (bbox d) = (sx, sy, sw, sh)"
    and i: "row < img_height front" "col < img_width front"
  note b = capture_Some_bounds [OF f c]
  have front: "front = \<lparr>img_width = nat sw, img_height = nat sh,
      img_pixels = map (\<lambda>row. map (\<lambda>col. Some (framePixel v (nat sx + (nat sw - 1 - col))
                                                 (nat sy + row))) [0..<nat sw]) [0..<nat sh]\<rparr>"
    using f capture_result [OF b(1,2) c b(3,4), of "st\<lparr>facingMode := User\<rparr>"] by simp
  have rear: "rear = \<lparr>img_width = nat sw, img_height = nat sh,
      img_pixels = map (\<lambda>row. map (\<lambda>col. Some (framePixel v (nat sx + col) (nat sy + row)))
                                  [0..<nat sw]) [0..<nat sh]\<rparr>"
    using r capture_result [OF b(1,2) c b(3,4), of "st\<lparr>facingMode := Environment\<rparr>"] by simp
  have "row < nat sh" "col < nat sw" "nat sw - 1 - col < nat sw"
    using i b by (simp_all add: front)
  then show ?thesis
    by (simp add: front rear)
qed

theorem mirrored_capture_witness:
  "captureSelectedCrop (ex_state\<lparr>facingMode := User\<rparr>) ex_video (Some ex_det) = Inr (Some ex_front)
   \<and> captureSelectedCrop (ex_state\<lparr>facingMode := Environment\<rparr>) ex_video (Some ex_det)
       = Inr (Some ex_rear)
   \<and> clampBox (videoWidth ex_video) (videoHeight ex_video) (bbox ex_det) = (10, 20, 3, 2)
   \<and> 1 < img_height ex_front \<and> 0 < img_width ex_front
   \<and> img_pixels ex_front ! 1 ! 0 = img_pixels ex_rear ! 1 ! 2
   \<and> img_pixels ex_front ! 1 ! 0 = Some 21012
   \<and> img_pixels ex_rear ! 1 ! 0 = Some (framePixel ex_video 10 21)"
proof -
  have i: "1 < img_height ex_front" "0 < img_width ex_front"
    by (simp_all add: ex_front_def)
  from mirrored_capture [OF ex_capture_front ex_capture_rear ex_clamp i]
  have "img_pixels ex_front ! 1 ! 0 = img_pixels ex_rear ! 1 ! 2"
    and "img_pixels ex_rear ! 1 ! 0 = Some (framePixel ex_video 10 21)"
    by simp_all
  moreover have "img_pixels ex_front ! 1 ! 0 = Some 21012"
    by (simp add: ex_front_def)
  ultimately show ?thesis
    using ex_capture_front ex_capture_rear ex_clamp i by (intro conjI)
qed

end
